theory Spec2Isabelle
  imports Complex_Main
begin

section \<open>Vectors and matrices\<close>

text \<open>
  The estimation background of the package is written in vector-matrix form over the reals.
  A vector is a list of reals, a matrix is the list of its rows. All dimensions are assumed
  conformable, as in the documented formulas.
\<close>

type_synonym vec = "real list"
type_synonym mat = "real list list"

definition dot :: "vec \<Rightarrow> vec \<Rightarrow> real" where
  "dot xs ys = sum_list (map2 (*) xs ys)"

definition mat_vec :: "mat \<Rightarrow> vec \<Rightarrow> vec" where
  "mat_vec A x = map (\<lambda>row. dot row x) A"

definition vec_add :: "vec \<Rightarrow> vec \<Rightarrow> vec" where
  "vec_add xs ys = map2 (+) xs ys"

definition vec_sub :: "vec \<Rightarrow> vec \<Rightarrow> vec" where
  "vec_sub xs ys = map2 (-) xs ys"

definition col :: "mat \<Rightarrow> nat \<Rightarrow> vec" where
  "col A p = map (\<lambda>row. row ! p) A"

text \<open>The infinity norm of a vector.\<close>

definition norm_inf :: "vec \<Rightarrow> real" where
  "norm_inf xs = fold max (map abs xs) 0"

section \<open>Matrix products\<close>

text \<open>
  The number of columns of a matrix is read off its first row; the transpose and the product
  are by entry, \<open>(A B)\<^sub>i\<^sub>j = A\<^sub>i \<cdot> B\<^sub>\<bullet>\<^sub>j\<close>.
\<close>

definition ncols :: "mat \<Rightarrow> nat" where
  "ncols A = (case A of [] \<Rightarrow> 0 | row # _ \<Rightarrow> length row)"

definition transpose_m :: "mat \<Rightarrow> mat" where
  "transpose_m A = map (col A) [0..<ncols A]"

definition mat_mul :: "mat \<Rightarrow> mat \<Rightarrow> mat" where
  "mat_mul A B = map (\<lambda>row. map (\<lambda>j. dot row (col B j)) [0..<ncols B]) A"

definition identity :: "nat \<Rightarrow> mat" where
  "identity n = map (\<lambda>i. map (\<lambda>j. if i = j then 1 else 0) [0..<n]) [0..<n]"

text \<open>A matrix with \<open>r\<close> rows of length \<open>c\<close>, and \<open>B\<close> being the inverse of \<open>A\<close>.\<close>

definition is_mat :: "nat \<Rightarrow> nat \<Rightarrow> mat \<Rightarrow> bool" where
  "is_mat r c A \<longleftrightarrow> length A = r \<and> list_all (\<lambda>row. length row = c) A"

definition is_inverse :: "mat \<Rightarrow> mat \<Rightarrow> bool" where
  "is_inverse A B \<longleftrightarrow> mat_mul A B = identity (length A) \<and> mat_mul B A = identity (length A)"

section \<open>Demand: utilities, choice probabilities and market shares\<close>

text \<open>
  An agent \<open>i\<close> of a market carries its integration weight \<open>w\<^sub>i\<close>, its row \<open>\<nu>\<^sub>i\<close> of
  the matrix of integration nodes and its row \<open>d\<^sub>i\<close> of the demographics matrix.
\<close>

record agent =
  weight :: real
  nodes :: vec
  demographics :: vec

text \<open>
  A market holds the rows of the nonlinear characteristics \<open>X\<^sub>2\<close> (one per product), the
  agents and the nesting group \<open>h(j)\<close> of every product.
\<close>

record market =
  X2 :: mat
  agents :: "agent list"
  nesting_ids :: "nat list"

text \<open>
  The nonlinear parameters: \<open>\<Sigma>\<close>, \<open>\<Pi>\<close> and, in the nested models, the nesting
  parameters \<open>\<rho>\<^sub>h\<close>.
\<close>

record theta =
  Sigma :: mat
  Pi :: mat
  rho :: "(nat \<Rightarrow> real) option"

text \<open>Column \<open>i\<close> of \<open>\<Sigma>\<nu>' + \<Pi>d'\<close>.\<close>

definition coefficients :: "theta \<Rightarrow> agent \<Rightarrow> vec" where
  "coefficients th a = vec_add (mat_vec (Sigma th) (nodes a)) (mat_vec (Pi th) (demographics a))"

text \<open>Column \<open>i\<close> of \<open>\<mu> = X\<^sub>2(\<Sigma>\<nu>' + \<Pi>d')\<close>.\<close>

definition mu :: "theta \<Rightarrow> market \<Rightarrow> agent \<Rightarrow> vec" where
  "mu th m a = mat_vec (X2 m) (coefficients th a)"

text \<open>\<open>V\<^sub>j\<^sub>t\<^sub>i = \<delta>\<^sub>j\<^sub>t + \<mu>\<^sub>j\<^sub>t\<^sub>i\<close> for the products \<open>j\<close> of the market.\<close>

definition utilities :: "vec \<Rightarrow> theta \<Rightarrow> market \<Rightarrow> agent \<Rightarrow> vec" where
  "utilities delta th m a = vec_add delta (mu th m a)"

text \<open>
  Equation (probabilities): \<open>s\<^sub>j\<^sub>t\<^sub>i = exp V\<^sub>j\<^sub>t\<^sub>i / (1 + \<Sum>\<^sub>k exp V\<^sub>k\<^sub>t\<^sub>i)\<close>.
\<close>

definition probabilities :: "vec \<Rightarrow> vec" where
  "probabilities V = map (\<lambda>v. exp v / (1 + sum_list (map exp V))) V"

text \<open>
  Equation (inclusive\_value):
  \<open>V\<^sub>h\<^sub>t\<^sub>i = (1 - \<rho>\<^sub>h) log \<Sum>\<^sub>k\<^sub>\<in>\<^sub>J\<^sub>h exp [V\<^sub>k\<^sub>t\<^sub>i / (1 - \<rho>\<^sub>h)]\<close>, the sum over the products
  of the market that are in group \<open>h\<close>.
\<close>

definition group_utilities :: "nat list \<Rightarrow> vec \<Rightarrow> nat \<Rightarrow> vec" where
  "group_utilities hs V h = map fst (filter (\<lambda>vh. snd vh = h) (zip V hs))"

definition inclusive_value :: "(nat \<Rightarrow> real) \<Rightarrow> nat list \<Rightarrow> vec \<Rightarrow> nat \<Rightarrow> real" where
  "inclusive_value r hs V h =
     (1 - r h) * ln (sum_list (map (\<lambda>v. exp (v / (1 - r h))) (group_utilities hs V h)))"

text \<open>
  Equation (nested\_probabilities). The groups \<open>h = 1, \<dots>, H\<close> of the market are the
  groups its products are assigned to.
\<close>

definition nested_probabilities :: "(nat \<Rightarrow> real) \<Rightarrow> nat list \<Rightarrow> vec \<Rightarrow> vec" where
  "nested_probabilities r hs V =
     map (\<lambda>vh. exp (fst vh / (1 - r (snd vh)))
                / exp (inclusive_value r hs V (snd vh) / (1 - r (snd vh)))
              * (exp (inclusive_value r hs V (snd vh))
                / (1 + sum_list (map (\<lambda>h. exp (inclusive_value r hs V h)) (remdups hs)))))
         (zip V hs)"

text \<open>The choice probabilities of one agent, by model variant.\<close>

definition agent_probabilities :: "vec \<Rightarrow> theta \<Rightarrow> market \<Rightarrow> agent \<Rightarrow> vec" where
  "agent_probabilities delta th m a =
     (case rho th of
        None \<Rightarrow> probabilities (utilities delta th m a)
      | Some r \<Rightarrow> nested_probabilities r (nesting_ids m) (utilities delta th m a))"

text \<open>Equation (shares): \<open>s\<^sub>j\<^sub>t = \<Sum>\<^sub>i w\<^sub>i\<^sub>t s\<^sub>j\<^sub>t\<^sub>i\<close>.\<close>

definition weighted_sum :: "agent list \<Rightarrow> (agent \<Rightarrow> vec) \<Rightarrow> nat \<Rightarrow> vec" where
  "weighted_sum as f J = map (\<lambda>j. sum_list (map (\<lambda>a. weight a * f a ! j) as)) [0..<J]"

definition predicted_shares :: "vec \<Rightarrow> theta \<Rightarrow> market \<Rightarrow> vec" where
  "predicted_shares delta th m =
     weighted_sum (agents m) (agent_probabilities delta th m) (length delta)"

text \<open>Equation (logit\_delta): \<open>\<delta>\<^sub>j\<^sub>t = log s\<^sub>j\<^sub>t - log s\<^sub>0\<^sub>t\<close> with \<open>s\<^sub>0\<^sub>t = 1 - \<Sum>\<^sub>j s\<^sub>j\<^sub>t\<close>.\<close>

definition outside_share :: "vec \<Rightarrow> real" where
  "outside_share s = 1 - sum_list s"

definition logit_delta :: "vec \<Rightarrow> vec" where
  "logit_delta s = map (\<lambda>sj. ln sj - ln (outside_share s)) s"

text \<open>
  Validity of the inputs of the share computation: the mean utilities and the rows of \<open>X\<^sub>2\<close>
  range over the \<open>J\<^sub>t\<close> products of the market; the integration weights sum to one; in the
  nested models every product has its nesting group and the nesting parameters of the groups
  lie in \<open>(0, 1)\<close>.
\<close>

definition conformable :: "vec \<Rightarrow> market \<Rightarrow> bool" where
  "conformable delta m \<longleftrightarrow> length (X2 m) = length delta"

definition weights_sum_to_one :: "market \<Rightarrow> bool" where
  "weights_sum_to_one m \<longleftrightarrow> sum_list (map weight (agents m)) = 1"

definition nonnegative_weights :: "market \<Rightarrow> bool" where
  "nonnegative_weights m \<longleftrightarrow> list_all (\<lambda>a. 0 \<le> weight a) (agents m)"

definition valid_theta :: "theta \<Rightarrow> market \<Rightarrow> bool" where
  "valid_theta th m \<longleftrightarrow>
     (case rho th of None \<Rightarrow> True
      | Some r \<Rightarrow>
          length (nesting_ids m) = length (X2 m)
          \<and> list_all (\<lambda>h. 0 < r h \<and> r h < 1) (nesting_ids m))"

text \<open>
  A one-product market with two agents whose integration weights \<open>4\<close> and \<open>-3\<close> sum to
  one (quadrature rules may have negative weights), and a market with two products and two
  equally weighted agents.
\<close>

definition two_agent_market :: market where
  "two_agent_market = \<lparr>X2 = [[1]],
     agents = [\<lparr>weight = 4, nodes = [0], demographics = []\<rparr>,
               \<lparr>weight = - 3, nodes = [1], demographics = []\<rparr>],
     nesting_ids = [0]\<rparr>"

definition two_agent_theta :: theta where
  "two_agent_theta = \<lparr>Sigma = [[ln 3]], Pi = [[]], rho = None\<rparr>"

definition half_market :: market where
  "half_market = \<lparr>X2 = [[1], [2]],
     agents = [\<lparr>weight = 1/2, nodes = [0], demographics = []\<rparr>,
               \<lparr>weight = 1/2, nodes = [0], demographics = []\<rparr>],
     nesting_ids = [0, 0]\<rparr>"

section \<open>The error boundary of the share computation\<close>

datatype error = NonConvergence | SingularMatrix | DomainError | ConfigurationError

text \<open>
  Modelled from the spec: the Share Engine with its error boundary. The program text of the
  share computation and of its handling of floating point errors is not among the sources;
  the documented background only states that \<open>\<rho> \<rightarrow> 1\<close> gives division by zero errors in the
  nesting formulas. Following the spec, a nesting parameter \<open>\<rho>\<^sub>h\<close> of a group of the market
  for which the divisor \<open>1 - \<rho>\<^sub>h\<close> of equation (inclusive\_value) is zero is reported as a
  fatal \<open>DomainError\<close>; otherwise the engine returns the predicted shares.
\<close>

definition share_engine :: "vec \<Rightarrow> theta \<Rightarrow> market \<Rightarrow> error + vec" where
  "share_engine delta th m =
     (case rho th of
        None \<Rightarrow> Inr (predicted_shares delta th m)
      | Some r \<Rightarrow>
          if list_ex (\<lambda>h. 1 - r h = 0) (nesting_ids m) then Inl DomainError
          else Inr (predicted_shares delta th m))"


section \<open>Micro moments\<close>

text \<open>
  A micro moment \<open>m\<close> comes with the set \<open>T\<^sub>m\<close> of markets in which its micro data are
  relevant and, for every market \<open>t\<close>, the values \<open>g\<^sub>M\<^sub>,\<^sub>m\<^sub>t\<^sub>i\<close> of the agents of the market.
  The integration weights \<open>w\<^sub>i\<^sub>t\<close> are given per market.
\<close>

record micro_moment =
  relevant_markets :: "nat set"
  agent_values :: "nat \<Rightarrow> vec"

text \<open>\<open>g\<^sub>M\<^sub>,\<^sub>m\<^sub>t = \<Sum>\<^sub>i w\<^sub>i\<^sub>t g\<^sub>M\<^sub>,\<^sub>m\<^sub>t\<^sub>i\<close>.\<close>

definition market_micro_mean :: "(nat \<Rightarrow> vec) \<Rightarrow> micro_moment \<Rightarrow> nat \<Rightarrow> real" where
  "market_micro_mean w mm t = dot (w t) (agent_values mm t)"

text \<open>
  Equation (averaged\_micro\_moments). The average divides by \<open>|T\<^sub>m|\<close>; there is no value
  when no market is relevant.
\<close>

definition averaged_micro_moment :: "(nat \<Rightarrow> vec) \<Rightarrow> micro_moment \<Rightarrow> real option" where
  "averaged_micro_moment w mm =
     (if card (relevant_markets mm) = 0 then None
      else Some ((\<Sum>t\<in>relevant_markets mm. market_micro_mean w mm t)
                 / real (card (relevant_markets mm))))"

text \<open>
  Equation (averaged\_micro\_moment\_covariances): zero if \<open>T\<^sub>m \<inter> T\<^sub>n\<close> is empty, otherwise
  the average over the markets of the intersection.
\<close>

definition market_micro_covariance ::
    "(nat \<Rightarrow> vec) \<Rightarrow> micro_moment \<Rightarrow> micro_moment \<Rightarrow> nat \<Rightarrow> real" where
  "market_micro_covariance w mm nn t =
     sum_list (map (\<lambda>(wi, gm, gn). wi * (gm - market_micro_mean w mm t)
                                       * (gn - market_micro_mean w nn t))
                   (zip (w t) (zip (agent_values mm t) (agent_values nn t))))"

definition micro_covariance :: "(nat \<Rightarrow> vec) \<Rightarrow> micro_moment \<Rightarrow> micro_moment \<Rightarrow> real" where
  "micro_covariance w mm nn =
     (if relevant_markets mm \<inter> relevant_markets nn = {} then 0
      else (\<Sum>t\<in>relevant_markets mm \<inter> relevant_markets nn. market_micro_covariance w mm nn t)
           / real (card (relevant_markets mm \<inter> relevant_markets nn)))"

text \<open>Two data sets agree on a set of markets.\<close>

definition agree_on :: "nat set \<Rightarrow> (nat \<Rightarrow> vec) \<Rightarrow> (nat \<Rightarrow> vec) \<Rightarrow> bool" where
  "agree_on T f g \<longleftrightarrow> (\<forall>t\<in>T. f t = g t)"

text \<open>Sample micro data: two equally weighted agents per market.\<close>

definition survey_weights :: "nat \<Rightarrow> vec" where
  "survey_weights t = [1/2, 1/2]"

definition moment_a :: micro_moment where
  "moment_a = \<lparr>relevant_markets = {1, 2}, agent_values = (\<lambda>t. if t = 1 then [1, 3] else [2, 4])\<rparr>"

definition moment_b :: micro_moment where
  "moment_b = \<lparr>relevant_markets = {2, 3}, agent_values = (\<lambda>t. if t = 2 then [0, 2] else [5, 5])\<rparr>"

definition moment_c :: micro_moment where
  "moment_c = \<lparr>relevant_markets = {3}, agent_values = (\<lambda>t. [1, 1])\<rparr>"

definition moment_a_alt :: micro_moment where
  "moment_a_alt = \<lparr>relevant_markets = {1, 2}, agent_values = (\<lambda>t. if t = 2 then [2, 4] else [7, 9])\<rparr>"

section \<open>Estimators of the covariance of the moments\<close>

text \<open>
  The moments \<open>g\<^sub>j\<^sub>t\<close> of the \<open>N\<close> products are given as a list of vectors of length \<open>M\<close>.
  \<open>vec_sum\<close> is the sum of a list of vectors and \<open>outer_sum\<close> the sum of their outer
  products \<open>\<Sum> v v'\<close>, both by entry.
\<close>

definition vec_sum :: "nat \<Rightarrow> vec list \<Rightarrow> vec" where
  "vec_sum M vs = map (\<lambda>a. sum_list (map (\<lambda>v. v ! a) vs)) [0..<M]"

definition outer_sum :: "nat \<Rightarrow> vec list \<Rightarrow> mat" where
  "outer_sum M vs = map (\<lambda>a. map (\<lambda>b. sum_list (map (\<lambda>v. v ! a * v ! b) vs)) [0..<M]) [0..<M]"

definition mat_scale :: "real \<Rightarrow> mat \<Rightarrow> mat" where
  "mat_scale c A = map (map (\<lambda>x. c * x)) A"

text \<open>Equation (robust\_S): \<open>S = (1/N) \<Sum>\<^sub>j\<^sub>t g\<^sub>j\<^sub>t g\<^sub>j\<^sub>t'\<close>.\<close>

definition robust_S :: "nat \<Rightarrow> vec list \<Rightarrow> mat" where
  "robust_S M gs = mat_scale (1 / real (length gs)) (outer_sum M gs)"

text \<open>
  Equation (clustered\_S): \<open>S = (1/N) \<Sum>\<^sub>c g\<^sub>c g\<^sub>c'\<close> with \<open>g\<^sub>c\<close> the sum of the moments of the
  products in cluster \<open>c\<close>; every product carries the id of its cluster.
\<close>

definition cluster_members :: "vec list \<Rightarrow> nat list \<Rightarrow> nat \<Rightarrow> vec list" where
  "cluster_members gs cids c = map fst (filter (\<lambda>gc. snd gc = c) (zip gs cids))"

definition cluster_sums :: "nat \<Rightarrow> vec list \<Rightarrow> nat list \<Rightarrow> vec list" where
  "cluster_sums M gs cids = map (\<lambda>c. vec_sum M (cluster_members gs cids c)) (remdups cids)"

definition clustered_S :: "nat \<Rightarrow> vec list \<Rightarrow> nat list \<Rightarrow> mat" where
  "clustered_S M gs cids = mat_scale (1 / real (length gs)) (outer_sum M (cluster_sums M gs cids))"

section \<open>Standard errors\<close>

text \<open>
  Equation (covariances):
  \<open>Var(\<theta>) = (G'WG)\<^sup>-\<^sup>1 G'WSWG (G'WG)\<^sup>-\<^sup>1\<close>, and equation (unadjusted\_covariances):
  \<open>Var(\<theta>) = (G'WG)\<^sup>-\<^sup>1\<close>. The routine that inverts a matrix is not part of the documented
  background and is a parameter here.
\<close>

definition bread :: "mat \<Rightarrow> mat \<Rightarrow> mat" where
  "bread G W = mat_mul (mat_mul (transpose_m G) W) G"

definition meat :: "mat \<Rightarrow> mat \<Rightarrow> mat \<Rightarrow> mat" where
  "meat G W S = mat_mul (mat_mul (mat_mul (mat_mul (transpose_m G) W) S) W) G"

definition covariances :: "(mat \<Rightarrow> mat) \<Rightarrow> mat \<Rightarrow> mat \<Rightarrow> mat \<Rightarrow> mat" where
  "covariances invert G W S =
     mat_mul (mat_mul (invert (bread G W)) (meat G W S)) (invert (bread G W))"

definition unadjusted_covariances :: "(mat \<Rightarrow> mat) \<Rightarrow> mat \<Rightarrow> mat \<Rightarrow> mat" where
  "unadjusted_covariances invert G W = invert (bread G W)"

text \<open>Standard errors: the square root of the diagonal of the covariance matrix divided by \<open>N\<close>.\<close>

definition standard_errors :: "nat \<Rightarrow> mat \<Rightarrow> vec" where
  "standard_errors N V = map (\<lambda>p. sqrt (V ! p ! p / real N)) [0..<length V]"

text \<open>Inversion of a matrix with a single entry.\<close>

definition inverse_1x1 :: "mat \<Rightarrow> mat" where
  "inverse_1x1 A = [[1 / (A ! 0 ! 0)]]"

section \<open>The GMM objective and its gradient\<close>

text \<open>
  Equation (objective): \<open>q(\<theta>) = N\<^sup>2 g'Wg\<close>, and equation (gradient):
  \<open>\<nabla>q(\<theta>) = 2 N\<^sup>2 G'Wg\<close>, for the averaged moments \<open>g\<close> and their Jacobian \<open>G\<close> at \<open>\<theta>\<close>.
\<close>

definition objective :: "nat \<Rightarrow> mat \<Rightarrow> vec \<Rightarrow> real" where
  "objective N W g = (real N)\<^sup>2 * dot g (mat_vec W g)"

definition gradient :: "nat \<Rightarrow> mat \<Rightarrow> mat \<Rightarrow> vec \<Rightarrow> vec" where
  "gradient N W G g = map (\<lambda>x. 2 * (real N)\<^sup>2 * x) (mat_vec (transpose_m G) (mat_vec W g))"

definition gmm_engine :: "nat \<Rightarrow> mat \<Rightarrow> mat \<Rightarrow> vec \<Rightarrow> real \<times> vec" where
  "gmm_engine N W G g = (objective N W g, gradient N W G g)"

text \<open>A weighting matrix is symmetric.\<close>

definition symmetric :: "mat \<Rightarrow> bool" where
  "symmetric W \<longleftrightarrow> transpose_m W = W"

section \<open>The contraction for the mean utilities\<close>

text \<open>
  Equation (contraction): \<open>\<delta>\<^sub>j\<^sub>t \<leftarrow> \<delta>\<^sub>j\<^sub>t + log s\<^sub>j\<^sub>t - log s\<^sub>j\<^sub>t(\<delta>, \<theta>)\<close>, and in the nested models
  equation (nested\_contraction):
  \<open>\<delta>\<^sub>j\<^sub>t \<leftarrow> \<delta>\<^sub>j\<^sub>t + (1 - \<rho>\<^sub>h\<^sub>(\<^sub>j\<^sub>)) [log s\<^sub>j\<^sub>t - log s\<^sub>j\<^sub>t(\<delta>, \<theta>)]\<close>, where \<open>s\<close> are the observed shares
  of the market.
\<close>

definition contraction_step :: "vec \<Rightarrow> theta \<Rightarrow> market \<Rightarrow> vec \<Rightarrow> vec" where
  "contraction_step s th m delta =
     (case rho th of
        None \<Rightarrow>
          map (\<lambda>(d, so, sp). d + (ln so - ln sp))
              (zip delta (zip s (predicted_shares delta th m)))
      | Some r \<Rightarrow>
          map (\<lambda>(d, h, so, sp). d + (1 - r h) * (ln so - ln sp))
              (zip delta (zip (nesting_ids m) (zip s (predicted_shares delta th m)))))"





fun iterate_contraction ::
    "(vec \<Rightarrow> real) \<Rightarrow> real \<Rightarrow> vec \<Rightarrow> theta \<Rightarrow> market \<Rightarrow> nat \<Rightarrow> vec \<Rightarrow> error + vec" where
  "iterate_contraction nrm tol s th m 0 delta = Inl NonConvergence"
| "iterate_contraction nrm tol s th m (Suc k) delta =
     (let delta' = contraction_step s th m delta in
      if nrm (vec_sub delta' delta) < tol then Inr delta'
      else iterate_contraction nrm tol s th m k delta')"










section \<open>Equilibrium prices\<close>

text \<open>
  The pricing side of a market: the ownership matrix \<open>O\<close>, the marginal costs \<open>c\<close>, the
  integration weights \<open>w\<^sub>i\<close> and, as functions of the prices, one row per agent of choice
  probabilities \<open>s\<^sub>j\<^sub>t\<^sub>i\<close> and of derivatives \<open>\<partial>U\<^sub>j\<^sub>t\<^sub>i / \<partial>p\<^sub>j\<^sub>t\<close>.
\<close>

record pricing_market =
  ownership :: mat
  costs :: vec
  agent_weights :: vec
  choice_probabilities :: "vec \<Rightarrow> mat"
  utility_derivatives :: "vec \<Rightarrow> mat"

definition agent_terms :: "pricing_market \<Rightarrow> vec \<Rightarrow> (real \<times> vec \<times> vec) list" where
  "agent_terms pm p =
     zip (agent_weights pm) (zip (choice_probabilities pm p) (utility_derivatives pm p))"

text \<open>Equation (shares) at the prices \<open>p\<close>.\<close>

definition aggregate_shares :: "pricing_market \<Rightarrow> vec \<Rightarrow> vec" where
  "aggregate_shares pm p =
     map (\<lambda>j. sum_list (map (\<lambda>(w, s, u). w * s ! j) (agent_terms pm p))) [0..<length (costs pm)]"

text \<open>The diagonal of \<open>\<Lambda>\<close>: \<open>\<Lambda>\<^sub>j\<^sub>j = \<Sum>\<^sub>i w\<^sub>i s\<^sub>j\<^sub>i \<partial>U\<^sub>j\<^sub>i/\<partial>p\<^sub>j\<close>.\<close>

definition Lambda :: "pricing_market \<Rightarrow> vec \<Rightarrow> vec" where
  "Lambda pm p =
     map (\<lambda>j. sum_list (map (\<lambda>(w, s, u). w * s ! j * u ! j) (agent_terms pm p)))
         [0..<length (costs pm)]"

text \<open>
  The dense matrix \<open>\<Gamma>\<close> as the background prints it, with the derivative of the utility of
  the row product: \<open>\<Gamma>\<^sub>j\<^sub>k = \<Sum>\<^sub>i w\<^sub>i s\<^sub>j\<^sub>i s\<^sub>k\<^sub>i \<partial>U\<^sub>j\<^sub>i/\<partial>p\<^sub>j\<close>.
\<close>

definition Gamma_printed :: "pricing_market \<Rightarrow> vec \<Rightarrow> mat" where
  "Gamma_printed pm p =
     map (\<lambda>j. map (\<lambda>k. sum_list (map (\<lambda>(w, s, u). w * s ! j * s ! k * u ! j) (agent_terms pm p)))
                    [0..<length (costs pm)])
         [0..<length (costs pm)]"

text \<open>The entrywise product \<open>O \<odot> \<Gamma>\<close>, and \<open>\<Lambda>\<^sup>-\<^sup>1 x\<close> for a diagonal matrix given by its diagonal.\<close>

definition hadamard :: "mat \<Rightarrow> mat \<Rightarrow> mat" where
  "hadamard A B = map2 (map2 (*)) A B"

definition diagonal_solve :: "vec \<Rightarrow> vec \<Rightarrow> vec" where
  "diagonal_solve d x = map2 (\<lambda>dj xj. xj / dj) d x"

text \<open>
  Modelled from the spec: the Price Solver, that is, the markup term \<open>\<zeta>\<close> it uses and its
  iteration. The program text of the computation of \<open>\<zeta>\<close> and of the iteration routine is
  not among the sources, and equation (zeta) of the documented background is printed
  without the share vector. Following the spec,
  \<open>\<zeta> = \<Lambda>\<^sup>-\<^sup>1 (O \<odot> \<Gamma>)' (p - c) - \<Lambda>\<^sup>-\<^sup>1 s\<close>, the iteration is \<open>p \<leftarrow> c + \<zeta>(p)\<close> from a starting
  price vector, it converges when the norm of \<open>\<Lambda>(p) (p - c - \<zeta>(p))\<close>, the firms' first order
  conditions, is below the tolerance, and it stops with the signal \<open>NonConvergence\<close> when
  the maximum number of iterations is reached before that.

  \<^item> In \<open>(O \<odot> \<Gamma>)'\<close> the matrix \<open>\<Gamma>\<close> carries the derivative of the utility of the column
    product, \<open>\<Gamma>\<^sub>j\<^sub>k = \<Sum>\<^sub>i w\<^sub>i s\<^sub>j\<^sub>i s\<^sub>k\<^sub>i \<partial>U\<^sub>k\<^sub>i/\<partial>p\<^sub>k\<close>. For logit choice probabilities
    \<open>\<Lambda> - \<Gamma>\<close> then has the demand derivatives \<open>\<partial>s\<^sub>j/\<partial>p\<^sub>k\<close> as entries, and product \<open>j\<close> of
    \<open>\<Lambda>(p) (p - c - \<zeta>(p))\<close>, which is \<open>s\<^sub>j + \<Lambda>\<^sub>j\<^sub>j (p\<^sub>j - c\<^sub>j) - \<Sum>\<^sub>k O\<^sub>k\<^sub>j \<Gamma>\<^sub>k\<^sub>j (p\<^sub>k - c\<^sub>k)\<close>, is the
    first order condition \<open>s\<^sub>j + \<Sum>\<^sub>k O\<^sub>k\<^sub>j (\<partial>s\<^sub>k/\<partial>p\<^sub>j) (p\<^sub>k - c\<^sub>k)\<close> for the price of product
    \<open>j\<close> of a firm that owns it (\<open>O\<^sub>j\<^sub>j = 1\<close>). The entries printed in the background are
    those of the transpose.
  \<^item> Each iteration evaluates \<open>\<zeta>\<close> once, at the current prices \<open>p\<close>; the solver returns the
    updated prices \<open>c + \<zeta>(p)\<close> of the first iteration at which the norm is below the
    tolerance.
\<close>

definition Gamma :: "pricing_market \<Rightarrow> vec \<Rightarrow> mat" where
  "Gamma pm p =
     map (\<lambda>j. map (\<lambda>k. sum_list (map (\<lambda>(w, s, u). w * s ! j * s ! k * u ! k) (agent_terms pm p)))
                    [0..<length (costs pm)])
         [0..<length (costs pm)]"

definition zeta :: "pricing_market \<Rightarrow> vec \<Rightarrow> vec" where
  "zeta pm p =
     vec_sub (diagonal_solve (Lambda pm p)
                (mat_vec (transpose_m (hadamard (ownership pm) (Gamma pm p)))
                         (vec_sub p (costs pm))))
             (diagonal_solve (Lambda pm p) (aggregate_shares pm p))"

text \<open>
  The markup term with the matrix \<open>\<Gamma>\<close> as the background prints it, for comparison.
\<close>

definition zeta_printed :: "pricing_market \<Rightarrow> vec \<Rightarrow> vec" where
  "zeta_printed pm p =
     vec_sub (diagonal_solve (Lambda pm p)
                (mat_vec (transpose_m (hadamard (ownership pm) (Gamma_printed pm p)))
                         (vec_sub p (costs pm))))
             (diagonal_solve (Lambda pm p) (aggregate_shares pm p))"

definition price_step :: "pricing_market \<Rightarrow> vec \<Rightarrow> vec" where
  "price_step pm p = vec_add (costs pm) (zeta pm p)"

definition foc_residual :: "pricing_market \<Rightarrow> vec \<Rightarrow> vec" where
  "foc_residual pm p =
     map2 (*) (Lambda pm p) (vec_sub (vec_sub p (costs pm)) (zeta pm p))"

fun price_solver ::
    "(vec \<Rightarrow> real) \<Rightarrow> real \<Rightarrow> nat \<Rightarrow> pricing_market \<Rightarrow> vec \<Rightarrow> error + vec" where
  "price_solver nrm tol 0 pm p = Inl NonConvergence"
| "price_solver nrm tol (Suc k) pm p =
     (if nrm (foc_residual pm p) < tol then Inr (price_step pm p)
      else price_solver nrm tol k pm (price_step pm p))"

text \<open>
  The norm of the first order conditions at the \<open>n\<close>-th iterate of the prices, and the
  iteration at which the tolerance is reached: the first one at which that norm is below
  the tolerance.
\<close>

definition residual_norm :: "(vec \<Rightarrow> real) \<Rightarrow> pricing_market \<Rightarrow> vec \<Rightarrow> nat \<Rightarrow> real" where
  "residual_norm nrm pm p n = nrm (foc_residual pm ((price_step pm ^^ n) p))"

definition converges_at :: "(vec \<Rightarrow> real) \<Rightarrow> real \<Rightarrow> pricing_market \<Rightarrow> vec \<Rightarrow> nat \<Rightarrow> bool" where
  "converges_at nrm tol pm p n \<longleftrightarrow>
     residual_norm nrm pm p n < tol \<and> (\<forall>k<n. \<not> residual_norm nrm pm p k < tol)"

text \<open>
  The dimensions of a pricing market with \<open>J\<close> products and \<open>I\<close> agents at the prices \<open>p\<close>.
\<close>

definition price_dimensions :: "pricing_market \<Rightarrow> vec \<Rightarrow> nat \<Rightarrow> nat \<Rightarrow> bool" where
  "price_dimensions pm p I J \<longleftrightarrow>
     length (costs pm) = J \<and> length p = J \<and> is_mat J J (ownership pm)
     \<and> length (agent_weights pm) = I \<and> length (choice_probabilities pm p) = I
     \<and> length (utility_derivatives pm p) = I"

text \<open>
  A single-product firm facing one agent with choice probability \<open>1/2\<close> and utility price
  derivative \<open>-1\<close>, at marginal cost \<open>1\<close>; and a firm with two products whose utilities
  respond differently to their prices.
\<close>

definition monopolist :: pricing_market where
  "monopolist = \<lparr>ownership = [[1]], costs = [1], agent_weights = [1],
     choice_probabilities = (\<lambda>p. [[1/2]]), utility_derivatives = (\<lambda>p. [[- 1]])\<rparr>"

definition two_product_firm :: pricing_market where
  "two_product_firm = \<lparr>ownership = [[1, 1], [1, 1]], costs = [1, 1], agent_weights = [1],
     choice_probabilities = (\<lambda>p. [[1/4, 1/2]]), utility_derivatives = (\<lambda>p. [[- 1, - 2]])\<rparr>"

section \<open>Linear parameters and fixed effects\<close>

text \<open>
  Equation (iv): the concentrated out linear parameters are recovered with linear IV-GMM,
  \<open>(X'ZWZ'X)\<^sup>-\<^sup>1 X'ZWZ'Y\<close>. The routine that inverts a matrix is a parameter.
\<close>

definition gmm_matrix :: "mat \<Rightarrow> mat \<Rightarrow> mat \<Rightarrow> mat" where
  "gmm_matrix X Z W =
     mat_mul (mat_mul (mat_mul (transpose_m X) Z) W) (mat_mul (transpose_m Z) X)"

definition gmm_vector :: "mat \<Rightarrow> mat \<Rightarrow> mat \<Rightarrow> vec \<Rightarrow> vec" where
  "gmm_vector X Z W Y =
     mat_vec (mat_mul (mat_mul (transpose_m X) Z) W) (mat_vec (transpose_m Z) Y)"

definition iv_gmm :: "(mat \<Rightarrow> mat) \<Rightarrow> mat \<Rightarrow> mat \<Rightarrow> mat \<Rightarrow> vec \<Rightarrow> vec" where
  "iv_gmm invert X Z W Y = mat_vec (invert (gmm_matrix X Z W)) (gmm_vector X Z W Y)"

text \<open>Equation (2sls\_W) for one equation: \<open>W = (Z'Z)\<^sup>-\<^sup>1\<close>.\<close>

definition two_sls_W :: "(mat \<Rightarrow> mat) \<Rightarrow> mat \<Rightarrow> mat" where
  "two_sls_W invert Z = invert (mat_mul (transpose_m Z) Z)"

text \<open>
  With one fixed effect, the matrices are de-meaned within each level of the fixed effect:
  every product carries the id of its level, and from every entry the mean of its column over
  the products of the same level is subtracted.
\<close>

definition level_values :: "nat list \<Rightarrow> vec \<Rightarrow> nat \<Rightarrow> vec" where
  "level_values ids v l = map fst (filter (\<lambda>xi. snd xi = l) (zip v ids))"

definition level_mean :: "nat list \<Rightarrow> vec \<Rightarrow> nat \<Rightarrow> real" where
  "level_mean ids v l = sum_list (level_values ids v l) / real (length (level_values ids v l))"

definition demean_vec :: "nat list \<Rightarrow> vec \<Rightarrow> vec" where
  "demean_vec ids v = map (\<lambda>xi. fst xi - level_mean ids v (snd xi)) (zip v ids)"

definition demean :: "nat list \<Rightarrow> mat \<Rightarrow> mat" where
  "demean ids A =
     map (\<lambda>ri. map (\<lambda>c. fst ri ! c - level_mean ids (col A c) (snd ri)) [0..<ncols A]) (zip A ids)"

text \<open>
  Fixed effects as dummy variables: one indicator column per level, appended to the columns
  of a matrix.
\<close>

definition dummies :: "nat list \<Rightarrow> mat" where
  "dummies ids = map (\<lambda>i. map (\<lambda>l. if i = l then 1 else 0) (remdups ids)) ids"

definition augment :: "mat \<Rightarrow> mat \<Rightarrow> mat" where
  "augment A D = map2 (@) A D"

text \<open>
  The sum and the number of the entries of a vector within a level, and the map
  \<open>e \<mapsto> X'ZWZ'e\<close> of the normal equations \<open>X'ZWZ'(Y - X b) = 0\<close> of the IV-GMM estimate.
\<close>

definition level_sum :: "nat list \<Rightarrow> vec \<Rightarrow> nat \<Rightarrow> real" where
  "level_sum ids v l = (\<Sum>j<length ids. if ids ! j = l then v ! j else 0)"

definition level_count :: "nat list \<Rightarrow> nat \<Rightarrow> real" where
  "level_count ids l = (\<Sum>j<length ids. if ids ! j = l then 1 else 0)"

definition gmm_normal :: "mat \<Rightarrow> mat \<Rightarrow> mat \<Rightarrow> vec \<Rightarrow> vec" where
  "gmm_normal X Z W e =
     mat_vec (transpose_m X) (mat_vec Z (mat_vec W (mat_vec (transpose_m Z) e)))"

text \<open>
  The inverses of matrices with up to three rows by their adjugates, and an inversion routine
  that returns the inverse of a given matrix of dimension \<open>n\<close>.
\<close>

definition inverse_2x2 :: "mat \<Rightarrow> mat" where
  "inverse_2x2 A =
     (let a = A ! 0 ! 0; b = A ! 0 ! 1; c = A ! 1 ! 0; d = A ! 1 ! 1; det = a * d - b * c
      in [[d / det, - b / det], [- c / det, a / det]])"

definition inverse_3x3 :: "mat \<Rightarrow> mat" where
  "inverse_3x3 A =
     (let a = A ! 0 ! 0; b = A ! 0 ! 1; c = A ! 0 ! 2;
          d = A ! 1 ! 0; e = A ! 1 ! 1; f = A ! 1 ! 2;
          g = A ! 2 ! 0; h = A ! 2 ! 1; i = A ! 2 ! 2;
          det = a * (e * i - f * h) - b * (d * i - f * g) + c * (d * h - e * g)
      in [[(e * i - f * h) / det, (c * h - b * i) / det, (b * f - c * e) / det],
          [(f * g - d * i) / det, (a * i - c * g) / det, (c * d - a * f) / det],
          [(d * h - e * g) / det, (b * g - a * h) / det, (a * e - b * d) / det]])"

definition inverse_upto_3 :: "mat \<Rightarrow> mat" where
  "inverse_upto_3 A =
     (if length A = 1 then inverse_1x1 A
      else if length A = 2 then inverse_2x2 A else inverse_3x3 A)"

definition inverts :: "(mat \<Rightarrow> mat) \<Rightarrow> nat \<Rightarrow> mat \<Rightarrow> bool" where
  "inverts invert n A \<longleftrightarrow> is_mat n n (invert A) \<and> is_inverse A (invert A)"

text \<open>
  Sample data: four products at one level of the fixed effect, one regressor and two
  instruments.
\<close>

definition survey_X :: mat where "survey_X = [[0], [0], [0], [1]]"

definition survey_Z :: mat where "survey_Z = [[0, 0], [0, 1], [1, 1], [0, 1]]"

definition survey_Y :: vec where "survey_Y = [0, 1, 1, 1]"

definition survey_ids :: "nat list" where "survey_ids = [0, 0, 0, 0]"

section \<open>Iterating a map\<close>

lemma funpow_shift: "(f ^^ k) (f x) = (f ^^ Suc k) x"
  by (simp add: funpow_swap1)

lemma all_less_Suc_shift: "(\<forall>k<Suc n. Q k) \<longleftrightarrow> Q 0 \<and> (\<forall>k<n. Q (Suc k))"
  by (metis less_Suc_eq_0_disj Suc_less_eq zero_less_Suc)

lemma ex_less_Suc_shift: "(\<exists>k<Suc n. Q k) \<longleftrightarrow> Q 0 \<or> (\<exists>k<n. Q (Suc k))"
  using all_less_Suc_shift [of n "\<lambda>k. \<not> Q k"] by blast

section \<open>Algebra of matrix products\<close>

lemma is_mat_length: "is_mat r c A \<Longrightarrow> length A = r"
  by (simp add: is_mat_def)

lemma is_mat_row: "is_mat r c A \<Longrightarrow> i < r \<Longrightarrow> length (A ! i) = c"
  by (auto simp: is_mat_def list_all_length)

lemma is_mat_ncols: "is_mat r c A \<Longrightarrow> 0 < r \<Longrightarrow> ncols A = c"
  by (cases A) (auto simp: is_mat_def ncols_def)

lemma is_matI:
  "length A = r \<Longrightarrow> (\<And>i. i < r \<Longrightarrow> length (A ! i) = c) \<Longrightarrow> is_mat r c A"
  by (auto simp: is_mat_def list_all_length)

lemma mat_ext:
  assumes "is_mat r c A" "is_mat r c B" "\<And>i j. i < r \<Longrightarrow> j < c \<Longrightarrow> A ! i ! j = B ! i ! j"
  shows "A = B"
proof (rule nth_equalityI)
  show "length A = length B" using assms by (simp add: is_mat_length)
  fix i assume "i < length A"
  then have i: "i < r" using assms(1) by (simp add: is_mat_length)
  show "A ! i = B ! i"
    by (rule nth_equalityI) (use i assms in \<open>auto simp: is_mat_row\<close>)
qed

lemma dot_sum:
  assumes "length xs = n" "length ys = n"
  shows "dot xs ys = (\<Sum>k<n. xs ! k * ys ! k)"
proof -
  have "dot xs ys = (\<Sum>k = 0..<length (map2 (*) xs ys). map2 (*) xs ys ! k)"
    unfolding dot_def by (rule sum_list_sum_nth)
  also have "\<dots> = (\<Sum>k = 0..<n. xs ! k * ys ! k)"
    using assms by (intro sum.cong) auto
  finally show ?thesis by (simp add: atLeast0LessThan)
qed

lemma mat_vec_nth:
  assumes "is_mat r n A" "length x = n" "i < r"
  shows "mat_vec A x ! i = (\<Sum>k<n. A ! i ! k * x ! k)"
  using assms by (simp add: mat_vec_def is_mat_length dot_sum is_mat_row)

lemma length_mat_vec: "length (mat_vec A x) = length A"
  by (simp add: mat_vec_def)

lemma mat_mul_nth:
  assumes "is_mat r n A" "is_mat n c B" "0 < n" "i < r" "j < c"
  shows "mat_mul A B ! i ! j = (\<Sum>k<n. A ! i ! k * B ! k ! j)"
proof -
  have nc: "ncols B = c" by (rule is_mat_ncols [OF assms(2,3)])
  have "mat_mul A B ! i ! j = dot (A ! i) (col B j)"
    using assms nc by (simp add: mat_mul_def is_mat_length)
  also have "\<dots> = (\<Sum>k<n. A ! i ! k * col B j ! k)"
    by (rule dot_sum) (use assms in \<open>simp_all add: is_mat_row col_def is_mat_length\<close>)
  also have "\<dots> = (\<Sum>k<n. A ! i ! k * B ! k ! j)"
    using assms by (intro sum.cong) (auto simp: col_def is_mat_length)
  finally show ?thesis .
qed

lemma is_mat_mat_mul:
  assumes "is_mat r n A" "is_mat n c B" "0 < n"
  shows "is_mat r c (mat_mul A B)"
  using assms is_mat_ncols [OF assms(2,3)]
  by (intro is_matI) (simp_all add: mat_mul_def is_mat_length)

lemma transpose_m_nth:
  assumes "is_mat r c A" "0 < r" "i < c" "j < r"
  shows "transpose_m A ! i ! j = A ! j ! i"
  using assms is_mat_ncols [OF assms(1,2)]
  by (simp add: transpose_m_def col_def is_mat_length)

lemma is_mat_transpose_m:
  assumes "is_mat r c A" "0 < r"
  shows "is_mat c r (transpose_m A)"
  using assms is_mat_ncols [OF assms(1,2)]
  by (intro is_matI) (simp_all add: transpose_m_def col_def is_mat_length)

lemma identity_nth: "i < n \<Longrightarrow> j < n \<Longrightarrow> identity n ! i ! j = (if i = j then 1 else 0)"
  by (simp add: identity_def)

lemma is_mat_identity: "is_mat n n (identity n)"
  by (intro is_matI) (simp_all add: identity_def)

lemma mat_mul_assoc:
  assumes "is_mat r n A" "is_mat n k B" "is_mat k c C" "0 < n" "0 < k"
  shows "mat_mul (mat_mul A B) C = mat_mul A (mat_mul B C)"
proof (rule mat_ext)
  have ab: "is_mat r k (mat_mul A B)" by (rule is_mat_mat_mul [OF assms(1,2,4)])
  have bc: "is_mat n c (mat_mul B C)" by (rule is_mat_mat_mul [OF assms(2,3,5)])
  show "is_mat r c (mat_mul (mat_mul A B) C)" by (rule is_mat_mat_mul [OF ab assms(3,5)])
  show "is_mat r c (mat_mul A (mat_mul B C))" by (rule is_mat_mat_mul [OF assms(1) bc assms(4)])
  fix i j assume i: "i < r" and j: "j < c"
  have "mat_mul (mat_mul A B) C ! i ! j = (\<Sum>l<k. mat_mul A B ! i ! l * C ! l ! j)"
    by (rule mat_mul_nth [OF ab assms(3,5) i j])
  also have "\<dots> = (\<Sum>l<k. (\<Sum>m<n. A ! i ! m * B ! m ! l) * C ! l ! j)"
    by (intro sum.cong refl) (simp add: mat_mul_nth [OF assms(1,2,4) i])
  also have "\<dots> = (\<Sum>l<k. \<Sum>m<n. A ! i ! m * (B ! m ! l * C ! l ! j))"
    by (simp add: sum_distrib_right mult.assoc)
  also have "\<dots> = (\<Sum>m<n. \<Sum>l<k. A ! i ! m * (B ! m ! l * C ! l ! j))"
    by (rule sum.swap)
  also have "\<dots> = (\<Sum>m<n. A ! i ! m * (\<Sum>l<k. B ! m ! l * C ! l ! j))"
    by (simp add: sum_distrib_left)
  also have "\<dots> = (\<Sum>m<n. A ! i ! m * mat_mul B C ! m ! j)"
    by (intro sum.cong refl) (simp add: mat_mul_nth [OF assms(2,3,5) _ j])
  also have "\<dots> = mat_mul A (mat_mul B C) ! i ! j"
    by (rule mat_mul_nth [OF assms(1) bc assms(4) i j, symmetric])
  finally show "mat_mul (mat_mul A B) C ! i ! j = mat_mul A (mat_mul B C) ! i ! j" .
qed

lemma mat_mul_identity_right:
  assumes "is_mat r n A" "0 < n"
  shows "mat_mul A (identity n) = A"
proof (rule mat_ext)
  show "is_mat r n (mat_mul A (identity n))"
    by (rule is_mat_mat_mul [OF assms(1) is_mat_identity assms(2)])
  show "is_mat r n A" by (rule assms(1))
  fix i j assume i: "i < r" and j: "j < n"
  have "mat_mul A (identity n) ! i ! j = (\<Sum>k<n. A ! i ! k * identity n ! k ! j)"
    by (rule mat_mul_nth [OF assms(1) is_mat_identity assms(2) i j])
  also have "\<dots> = (\<Sum>k<n. if k = j then A ! i ! k else 0)"
    using j by (intro sum.cong refl) (simp add: identity_nth)
  also have "\<dots> = A ! i ! j" using j by simp
  finally show "mat_mul A (identity n) ! i ! j = A ! i ! j" .
qed

lemma mat_mul_identity_left:
  assumes "is_mat n c A" "0 < n"
  shows "mat_mul (identity n) A = A"
proof (rule mat_ext)
  show "is_mat n c (mat_mul (identity n) A)"
    by (rule is_mat_mat_mul [OF is_mat_identity assms(1) assms(2)])
  show "is_mat n c A" by (rule assms(1))
  fix i j assume i: "i < n" and j: "j < c"
  have "mat_mul (identity n) A ! i ! j = (\<Sum>k<n. identity n ! i ! k * A ! k ! j)"
    by (rule mat_mul_nth [OF is_mat_identity assms(1) assms(2) i j])
  also have "\<dots> = (\<Sum>k<n. if i = k then A ! k ! j else 0)"
    using i by (intro sum.cong refl) (simp add: identity_nth)
  also have "\<dots> = A ! i ! j" using i by simp
  finally show "mat_mul (identity n) A ! i ! j = A ! i ! j" .
qed

section \<open>Properties of the logit probabilities\<close>

lemma length_probabilities: "length (probabilities V) = length V"
  by (simp add: probabilities_def)

lemma sum_list_exp_nonneg: "0 \<le> sum_list (map exp (V::real list))"
  by (rule sum_list_nonneg) auto

lemma sum_list_divide_const: "sum_list (map (\<lambda>x. f x / (c::real)) xs) = sum_list (map f xs) / c"
  by (induction xs) (simp_all add: add_divide_distrib)

lemma probabilities_pos: "x \<in> set (probabilities V) \<Longrightarrow> 0 < x"
  using sum_list_exp_nonneg [of V] by (auto simp: probabilities_def intro!: divide_pos_pos)

lemma sum_list_probabilities: "sum_list (probabilities V) < 1"
proof -
  have "sum_list (probabilities V) = sum_list (map exp V) / (1 + sum_list (map exp V))"
    by (simp add: probabilities_def sum_list_divide_const)
  then show ?thesis using sum_list_exp_nonneg [of V] by simp
qed

lemma exp_logit_delta:
  assumes "\<forall>x\<in>set s. 0 < x" "sum_list s < 1"
  shows "map exp (logit_delta s) = map (\<lambda>x. x / outside_share s) s"
  using assms by (auto simp: logit_delta_def outside_share_def exp_diff)

lemma probabilities_logit_delta:
  assumes "\<forall>x\<in>set s. 0 < x" "sum_list s < 1"
  shows "probabilities (logit_delta s) = s"
proof -
  let ?s0 = "outside_share s"
  have s0: "0 < ?s0" using assms by (simp add: outside_share_def)
  have e: "map exp (logit_delta s) = map (\<lambda>x. x / ?s0) s" by (rule exp_logit_delta [OF assms])
  have d: "1 + sum_list (map exp (logit_delta s)) = 1 / ?s0"
    using s0 by (simp add: e sum_list_divide_const outside_share_def field_simps)
  have "probabilities (logit_delta s) = map (\<lambda>v. exp v / (1 / ?s0)) (logit_delta s)"
    by (simp add: probabilities_def d)
  also have "\<dots> = map (\<lambda>v. exp v * ?s0) (logit_delta s)" by simp
  also have "\<dots> = map (\<lambda>x. x * ?s0) (map exp (logit_delta s))" by (simp add: comp_def)
  also have "\<dots> = s" using s0 by (simp add: e comp_def map_idI)
  finally show ?thesis .
qed

lemma dot_Nil_right: "dot row [] = 0"
  by (simp add: dot_def)

lemma mu_no_parameters:
  "mu \<lparr>Sigma = [], Pi = [], rho = r\<rparr> m a = replicate (length (X2 m)) 0"
  by (simp add: mu_def coefficients_def mat_vec_def vec_add_def dot_Nil_right map_replicate_const)

lemma vec_add_zeros: "length xs = n \<Longrightarrow> vec_add xs (replicate n 0) = xs"
  unfolding vec_add_def
  by (induction xs arbitrary: n) auto

lemma weighted_sum_const:
  assumes "sum_list (map weight as) = 1"
  shows "weighted_sum as (\<lambda>a. s) (length s) = s"
proof -
  have "sum_list (map (\<lambda>a. weight a * c) as) = c" for c :: real
    using assms by (simp add: sum_list_mult_const)
  then show ?thesis by (simp add: weighted_sum_def map_nth)
qed

lemma length_logit_delta: "length (logit_delta s) = length s"
  by (simp add: logit_delta_def)

text \<open>
  Claim C4. Round trip in the pure logit case. For a share vector \<open>s\<close> with strictly positive
  entries that sum to less than one, the mean utilities \<open>\<delta>\<^sub>j = log s\<^sub>j - log s\<^sub>0\<close> of equation
  (logit\_delta), fed into the share computation with no nonlinear parameters (\<open>\<Sigma>\<close> and
  \<open>\<Pi>\<close> empty, no nesting), give back exactly \<open>s\<close>, in every market with as many products
  as \<open>s\<close> has entries and integration weights that sum to one. For the shares
  \<open>[0.5, 0.3, 0.1]\<close> the outside share is \<open>0.1\<close> and
  \<open>\<delta> = [log 0.5 - log 0.1, log 0.3 - log 0.1, 0]\<close>.
\<close>

theorem logit_round_trip:
  "((\<forall>x\<in>set s. 0 < x) \<and> sum_list s < 1 \<and> length (X2 m) = length s
      \<and> sum_list (map weight (agents m)) = 1
    \<longrightarrow> predicted_shares (logit_delta s) \<lparr>Sigma = [], Pi = [], rho = None\<rparr> m = s)
   \<and> outside_share [1/2, 3/10, 1/10] = 1/10
   \<and> logit_delta [1/2, 3/10, 1/10] = [ln (1/2) - ln (1/10), ln (3/10) - ln (1/10), 0]"
proof (intro conjI impI)
  assume a: "(\<forall>x\<in>set s. 0 < x) \<and> sum_list s < 1 \<and> length (X2 m) = length s
      \<and> sum_list (map weight (agents m)) = 1"
  let ?th = "\<lparr>Sigma = [], Pi = [], rho = None\<rparr>"
  have u: "utilities (logit_delta s) ?th m a = logit_delta s" for a
    using a by (simp add: utilities_def mu_no_parameters vec_add_zeros length_logit_delta)
  have p: "agent_probabilities (logit_delta s) ?th m = (\<lambda>a. s)"
    using a by (auto simp: agent_probabilities_def u probabilities_logit_delta)
  show "predicted_shares (logit_delta s) ?th m = s"
    using a by (simp add: predicted_shares_def p length_logit_delta weighted_sum_const)
next
  show "outside_share [1/2, 3/10, 1/10] = 1/10" by (simp add: outside_share_def)
  then show "logit_delta [1/2, 3/10, 1/10] = [ln (1/2) - ln (1/10), ln (3/10) - ln (1/10), 0]"
    by (simp add: logit_delta_def)
qed

theorem logit_round_trip_witness:
  "predicted_shares (logit_delta [1/2, 3/10, 1/10]) \<lparr>Sigma = [], Pi = [], rho = None\<rparr>
     \<lparr>X2 = [[], [], []], agents = [\<lparr>weight = 1, nodes = [], demographics = []\<rparr>], nesting_ids = []\<rparr>
   = [1/2, 3/10, 1/10]"
proof -
  let ?s = "[1/2, 3/10, 1/10] :: real list"
  let ?m = "\<lparr>X2 = [[], [], []], agents = [\<lparr>weight = 1, nodes = [], demographics = []\<rparr>],
             nesting_ids = []\<rparr>"
  have h: "(\<forall>x\<in>set ?s. 0 < x) \<and> sum_list ?s < 1 \<and> length (X2 ?m) = length ?s
      \<and> sum_list (map weight (agents ?m)) = 1"
    by simp
  from logit_round_trip [of ?s ?m] h show ?thesis by blast
qed

section \<open>Predicted shares lie in the unit simplex\<close>

lemma weighted_nonneg_pos:
  fixes x :: "'a \<Rightarrow> real" and w :: "'a \<Rightarrow> real"
  assumes "\<forall>a\<in>set as. 0 \<le> w a" "\<forall>a\<in>set as. 0 < x a"
  shows "0 \<le> sum_list (map (\<lambda>a. w a * x a) as)
       \<and> (0 < sum_list (map w as) \<longrightarrow> 0 < sum_list (map (\<lambda>a. w a * x a) as))"
  using assms
proof (induction as)
  case Nil
  show ?case by simp
next
  case (Cons a as)
  then have ih: "0 \<le> sum_list (map (\<lambda>a. w a * x a) as)"
      "0 < sum_list (map w as) \<Longrightarrow> 0 < sum_list (map (\<lambda>a. w a * x a) as)"
    by auto
  have wa: "0 \<le> w a" and xa: "0 < x a" using Cons.prems by auto
  have ws: "0 \<le> sum_list (map w as)" by (rule sum_list_nonneg) (use Cons.prems in auto)
  have n: "0 \<le> w a * x a" using wa xa by simp
  show ?case
  proof (intro conjI impI)
    show "0 \<le> sum_list (map (\<lambda>a. w a * x a) (a # as))" using n ih(1) by simp
    assume "0 < sum_list (map w (a # as))"
    then consider "0 < w a" | "0 < sum_list (map w as)" using wa ws by fastforce
    then show "0 < sum_list (map (\<lambda>a. w a * x a) (a # as))"
    proof cases
      case 1
      then have "0 < w a * x a" using xa by simp
      then show ?thesis using ih(1) by simp
    next
      case 2
      then show ?thesis using ih(2) n by simp
    qed
  qed
qed

lemma weighted_average_pos:
  fixes x :: "'a \<Rightarrow> real"
  assumes "\<forall>a\<in>set as. 0 \<le> w a" "sum_list (map w as) = 1" "\<forall>a\<in>set as. 0 < x a"
  shows "0 < sum_list (map (\<lambda>a. w a * x a) as)"
  using weighted_nonneg_pos [OF assms(1) assms(3)] assms(2) by simp

lemma weighted_average_less_one:
  fixes x :: "'a \<Rightarrow> real"
  assumes "\<forall>a\<in>set as. 0 \<le> w a" "sum_list (map w as) = 1" "\<forall>a\<in>set as. x a < 1"
  shows "sum_list (map (\<lambda>a. w a * x a) as) < 1"
proof -
  have "0 < sum_list (map (\<lambda>a. w a * (1 - x a)) as)"
    by (rule weighted_average_pos [OF assms(1) assms(2)]) (use assms(3) in auto)
  also have "sum_list (map (\<lambda>a. w a * (1 - x a)) as)
      = sum_list (map w as) - sum_list (map (\<lambda>a. w a * x a) as)"
    by (simp add: right_diff_distrib sum_list_subtractf)
  finally show ?thesis using assms(2) by simp
qed

lemma sum_list_swap:
  fixes g :: "'a \<Rightarrow> 'b \<Rightarrow> real"
  shows "sum_list (map (\<lambda>j. sum_list (map (\<lambda>a. g a j) as)) js)
       = sum_list (map (\<lambda>a. sum_list (map (\<lambda>j. g a j) js)) as)"
  by (induction as) (simp_all add: sum_list_addf)

lemma sum_list_weighted_sum:
  assumes "\<forall>a\<in>set as. length (f a) = J"
  shows "sum_list (weighted_sum as f J) = sum_list (map (\<lambda>a. weight a * sum_list (f a)) as)"
proof -
  have "sum_list (weighted_sum as f J)
      = sum_list (map (\<lambda>a. sum_list (map (\<lambda>j. weight a * f a ! j) [0..<J])) as)"
    unfolding weighted_sum_def by (rule sum_list_swap)
  also have "\<dots> = sum_list (map (\<lambda>a. weight a * sum_list (f a)) as)"
  proof (rule arg_cong [where f = sum_list], rule map_cong [OF refl])
    fix a assume "a \<in> set as"
    then have l: "length (f a) = J" using assms by simp
    have "sum_list (map (\<lambda>j. weight a * f a ! j) [0..<J])
        = weight a * sum_list (map ((!) (f a)) [0..<J])"
      by (simp add: sum_list_const_mult)
    also have "map ((!) (f a)) [0..<J] = f a" using l map_nth [of "f a"] by simp
    finally show "sum_list (map (\<lambda>j. weight a * f a ! j) [0..<J]) = weight a * sum_list (f a)" .
  qed
  finally show ?thesis .
qed

lemma weighted_sum_shares:
  assumes w: "\<forall>a\<in>set as. 0 \<le> weight a" "sum_list (map weight as) = 1"
    and l: "\<forall>a\<in>set as. length (f a) = J"
    and p: "\<forall>a\<in>set as. \<forall>x\<in>set (f a). 0 < x"
    and s: "\<forall>a\<in>set as. sum_list (f a) < 1"
  shows "(\<forall>x\<in>set (weighted_sum as f J). 0 < x) \<and> sum_list (weighted_sum as f J) < 1"
proof
  show "\<forall>x\<in>set (weighted_sum as f J). 0 < x"
  proof
    fix x assume "x \<in> set (weighted_sum as f J)"
    then obtain j where j: "j < J" and x: "x = sum_list (map (\<lambda>a. weight a * f a ! j) as)"
      by (auto simp: weighted_sum_def)
    have "\<forall>a\<in>set as. 0 < f a ! j" using l p j by (metis nth_mem)
    then show "0 < x" unfolding x by (rule weighted_average_pos [OF w])
  qed
  have "sum_list (weighted_sum as f J) = sum_list (map (\<lambda>a. weight a * sum_list (f a)) as)"
    by (rule sum_list_weighted_sum [OF l])
  also have "\<dots> < 1" by (rule weighted_average_less_one [OF w s])
  finally show "sum_list (weighted_sum as f J) < 1" .
qed

lemma pos_sum_less_one_bounds:
  fixes xs :: "real list"
  assumes "\<forall>x\<in>set xs. 0 < x" "sum_list xs < 1"
  shows "\<forall>x\<in>set xs. 0 < x \<and> x < 1"
proof
  fix x assume x: "x \<in> set xs"
  have "x \<le> sum_list xs" by (rule member_le_sum_list [OF x]) (use assms(1) in \<open>auto intro: less_imp_le\<close>)
  then show "0 < x \<and> x < 1" using assms x by auto
qed

lemma sum_list_indicator_absent:
  fixes c :: real
  shows "h \<notin> set ks \<Longrightarrow> sum_list (map (\<lambda>k. if h = k then c else 0) ks) = 0"
  by (induction ks) auto

lemma sum_list_indicator:
  fixes c :: real
  assumes "distinct ks" "h \<in> set ks"
  shows "sum_list (map (\<lambda>k. if h = k then c else 0) ks) = c"
  using assms by (induction ks) (auto simp: sum_list_indicator_absent)

lemma sum_list_exp_pos:
  fixes g :: "'a \<Rightarrow> real"
  shows "xs \<noteq> [] \<Longrightarrow> 0 < sum_list (map (\<lambda>x. exp (g x)) xs)"
proof (induction xs)
  case Nil
  then show ?case by simp
next
  case (Cons x xs)
  have "0 \<le> sum_list (map (\<lambda>x. exp (g x)) xs)" by (rule sum_list_nonneg) auto
  moreover have "0 < exp (g x)" by simp
  ultimately show ?case by (simp add: add_pos_nonneg)
qed

lemma sum_list_regroup:
  fixes f :: "'a \<Rightarrow> real"
  assumes "distinct ks" "k ` set xs \<subseteq> set ks"
  shows "sum_list (map f xs)
       = sum_list (map (\<lambda>h. sum_list (map f (filter (\<lambda>x. k x = h) xs))) ks)"
  using assms(2)
proof (induction xs)
  case Nil
  show ?case by simp
next
  case (Cons x xs)
  have kx: "k x \<in> set ks" using Cons.prems by simp
  have "sum_list (map (\<lambda>h. sum_list (map f (filter (\<lambda>y. k y = h) (x # xs)))) ks)
      = sum_list (map (\<lambda>h. (if k x = h then f x else 0)
                             + sum_list (map f (filter (\<lambda>y. k y = h) xs))) ks)"
    by (rule arg_cong [where f = sum_list], rule map_cong) auto
  also have "\<dots> = sum_list (map (\<lambda>h. if k x = h then f x else 0) ks)
                 + sum_list (map (\<lambda>h. sum_list (map f (filter (\<lambda>y. k y = h) xs))) ks)"
    by (rule sum_list_addf)
  also have "\<dots> = f x + sum_list (map f xs)"
    using Cons.IH Cons.prems by (simp add: sum_list_indicator [OF assms(1) kx])
  finally show ?case by simp
qed

lemma length_nested_probabilities:
  "length (nested_probabilities r hs V) = min (length V) (length hs)"
  by (simp add: nested_probabilities_def)

lemma nested_probabilities_pos:
  assumes "x \<in> set (nested_probabilities r hs V)"
  shows "0 < x"
proof -
  have "0 \<le> sum_list (map (\<lambda>h. exp (inclusive_value r hs V h)) (remdups hs))"
    by (rule sum_list_nonneg) auto
  then have "0 < 1 + sum_list (map (\<lambda>h. exp (inclusive_value r hs V h)) (remdups hs))" by simp
  then show ?thesis using assms by (auto simp: nested_probabilities_def)
qed

lemma group_sum_pos:
  assumes "length V = length hs" "h \<in> set hs"
  shows "0 < sum_list (map (\<lambda>v. exp (v / (1 - r h))) (group_utilities hs V h))"
proof -
  obtain j where j: "j < length hs" "hs ! j = h" using assms(2) by (auto simp: in_set_conv_nth)
  then have "(V ! j, h) \<in> set (zip V hs)" using assms(1) by (auto simp: in_set_zip)
  then have "V ! j \<in> set (group_utilities hs V h)"
    by (force simp: group_utilities_def)
  then have ne: "group_utilities hs V h \<noteq> []" by auto
  show ?thesis by (rule sum_list_exp_pos [OF ne])
qed

lemma exp_inclusive_value:
  assumes "length V = length hs" "h \<in> set hs" "r h \<noteq> 1"
  shows "exp (inclusive_value r hs V h / (1 - r h))
       = sum_list (map (\<lambda>v. exp (v / (1 - r h))) (group_utilities hs V h))"
  using group_sum_pos [OF assms(1,2), of r] assms(3) by (simp add: inclusive_value_def)

lemma sum_list_nested_probabilities:
  assumes l: "length V = length hs" and r: "\<forall>h\<in>set hs. r h \<noteq> 1"
  shows "sum_list (nested_probabilities r hs V) < 1"
proof -
  let ?IV = "inclusive_value r hs V"
  let ?T = "1 + sum_list (map (\<lambda>h. exp (?IV h)) (remdups hs))"
  let ?F = "\<lambda>vh. exp (fst vh / (1 - r (snd vh))) / exp (?IV (snd vh) / (1 - r (snd vh)))
                  * (exp (?IV (snd vh)) / ?T)"
  let ?G = "\<lambda>h. sum_list (map (\<lambda>v. exp (v / (1 - r h))) (group_utilities hs V h))"
  have n: "0 \<le> sum_list (map (\<lambda>h. exp (?IV h)) (remdups hs))"
    by (rule sum_list_nonneg) auto
  have keys: "snd ` set (zip V hs) \<subseteq> set (remdups hs)"
    by (auto dest: set_zip_rightD)
  have "sum_list (nested_probabilities r hs V) = sum_list (map ?F (zip V hs))"
    by (simp add: nested_probabilities_def)
  also have "\<dots> = sum_list (map (\<lambda>h. sum_list (map ?F (filter (\<lambda>vh. snd vh = h) (zip V hs))))
                               (remdups hs))"
    by (rule sum_list_regroup [OF distinct_remdups keys])
  also have "\<dots> = sum_list (map (\<lambda>h. exp (?IV h) / ?T) (remdups hs))"
  proof (rule arg_cong [where f = sum_list], rule map_cong [OF refl])
    fix h assume "h \<in> set (remdups hs)"
    then have h: "h \<in> set hs" by simp
    have g: "exp (?IV h / (1 - r h)) = ?G h" by (rule exp_inclusive_value [OF l h]) (use r h in auto)
    have gp: "0 < ?G h" by (rule group_sum_pos [OF l h])
    have "sum_list (map ?F (filter (\<lambda>vh. snd vh = h) (zip V hs)))
        = sum_list (map (\<lambda>vh. exp (fst vh / (1 - r h)) * (exp (?IV h) / ?T / ?G h))
                        (filter (\<lambda>vh. snd vh = h) (zip V hs)))"
      by (rule arg_cong [where f = sum_list], rule map_cong [OF refl]) (auto simp: g)
    also have "\<dots> = sum_list (map (\<lambda>vh. exp (fst vh / (1 - r h)))
                        (filter (\<lambda>vh. snd vh = h) (zip V hs))) * (exp (?IV h) / ?T / ?G h)"
      by (rule sum_list_mult_const)
    also have "sum_list (map (\<lambda>vh. exp (fst vh / (1 - r h)))
                        (filter (\<lambda>vh. snd vh = h) (zip V hs))) = ?G h"
      by (simp add: group_utilities_def comp_def)
    finally show "sum_list (map ?F (filter (\<lambda>vh. snd vh = h) (zip V hs))) = exp (?IV h) / ?T"
      using gp by simp
  qed
  also have "\<dots> = sum_list (map (\<lambda>h. exp (?IV h)) (remdups hs)) / ?T"
    by (rule sum_list_divide_const)
  also have "\<dots> < 1" using n by simp
  finally show ?thesis .
qed

lemma length_utilities:
  "length (X2 m) = length delta \<Longrightarrow> length (utilities delta th m a) = length delta"
  by (simp add: utilities_def vec_add_def mu_def mat_vec_def)

lemma agent_probabilities_props:
  assumes "conformable delta m" "valid_theta th m"
  shows "length (agent_probabilities delta th m a) = length delta"
    and "\<forall>x\<in>set (agent_probabilities delta th m a). 0 < x"
    and "sum_list (agent_probabilities delta th m a) < 1"
proof -
  have lu: "length (utilities delta th m a) = length delta"
    using assms(1) by (simp add: conformable_def length_utilities)
  have lh: "length (utilities delta th m a) = length (nesting_ids m)" if "rho th = Some r" for r
    using assms lu that by (simp add: conformable_def valid_theta_def)
  show "length (agent_probabilities delta th m a) = length delta"
    using lu lh
    by (auto simp: agent_probabilities_def length_probabilities length_nested_probabilities
        split: option.split)
  show "\<forall>x\<in>set (agent_probabilities delta th m a). 0 < x"
    by (auto simp: agent_probabilities_def probabilities_pos nested_probabilities_pos
        split: option.split)
  show "sum_list (agent_probabilities delta th m a) < 1"
  proof (cases "rho th")
    case None
    then show ?thesis by (simp add: agent_probabilities_def sum_list_probabilities)
  next
    case (Some r)
    then have "\<forall>h\<in>set (nesting_ids m). r h \<noteq> 1"
      using assms(2) by (auto simp: valid_theta_def list_all_iff)
    then show ?thesis
      using Some
      by (simp add: agent_probabilities_def sum_list_nested_probabilities [OF lh [OF Some]])
  qed
qed

text \<open>
  Claim C5, as amended. For every vector of mean utilities, every valid \<open>\<theta>\<close> (nesting
  parameters strictly between zero and one) and every market whose integration weights are
  non-negative and sum to one, every predicted share lies strictly between zero and one and
  the predicted shares of the market sum to strictly less than one.
\<close>

theorem shares_in_unit_interval:
  assumes "conformable delta m" "valid_theta th m"
    and "weights_sum_to_one m" "nonnegative_weights m"
  shows "(\<forall>x\<in>set (predicted_shares delta th m). 0 < x \<and> x < 1)
       \<and> sum_list (predicted_shares delta th m) < 1"
proof -
  have "(\<forall>x\<in>set (predicted_shares delta th m). 0 < x) \<and> sum_list (predicted_shares delta th m) < 1"
    unfolding predicted_shares_def
  proof (rule weighted_sum_shares)
    show "\<forall>a\<in>set (agents m). 0 \<le> weight a"
      using assms(4) by (simp add: nonnegative_weights_def list_all_iff)
    show "sum_list (map weight (agents m)) = 1"
      using assms(3) by (simp add: weights_sum_to_one_def)
  qed (simp_all add: agent_probabilities_props [OF assms(1,2)])
  then show ?thesis using pos_sum_less_one_bounds by blast
qed

text \<open>
  With weights that sum to one but are not all non-negative the bound fails: with weights
  \<open>4\<close> and \<open>-3\<close> on agents with choice probabilities \<open>1/2\<close> and \<open>3/4\<close> the predicted
  share of the single product is \<open>-1/4\<close>.
\<close>

theorem shares_negative_weight_counterexample:
  "conformable [0] two_agent_market \<and> valid_theta two_agent_theta two_agent_market
   \<and> weights_sum_to_one two_agent_market
   \<and> predicted_shares [0] two_agent_theta two_agent_market = [- 1 / 4]"
  by (simp add: conformable_def valid_theta_def weights_sum_to_one_def two_agent_market_def
      two_agent_theta_def predicted_shares_def weighted_sum_def agent_probabilities_def
      probabilities_def utilities_def mu_def coefficients_def mat_vec_def vec_add_def dot_def)

theorem shares_in_unit_interval_witness:
  "list_all (\<lambda>x. 0 < x \<and> x < 1)
     (predicted_shares [0, 0] \<lparr>Sigma = [[1]], Pi = [[]], rho = Some (\<lambda>h. 1/2)\<rparr> half_market)
   \<and> sum_list (predicted_shares [0, 0] \<lparr>Sigma = [[1]], Pi = [[]], rho = Some (\<lambda>h. 1/2)\<rparr> half_market) < 1"
  unfolding list_all_iff
  by (rule shares_in_unit_interval)
     (simp_all add: conformable_def valid_theta_def weights_sum_to_one_def nonnegative_weights_def
       half_market_def)

section \<open>Nesting parameters at the boundary\<close>

text \<open>
  Claim C6. In a market with nesting groups, if the nesting parameter \<open>\<rho>\<^sub>h\<close> of some group
  of the market equals one (the inclusive value formula divides by \<open>1 - \<rho>\<^sub>h = 0\<close>), the
  Share Engine raises \<open>DomainError\<close> and returns no share vector; if every \<open>\<rho>\<^sub>h\<close> lies
  strictly between zero and one, no error is raised and the predicted shares are returned.
\<close>

theorem share_engine_domain_error:
  "(rho th = Some r \<and> (\<exists>h\<in>set (nesting_ids m). r h = 1)
      \<longrightarrow> share_engine delta th m = Inl DomainError)
   \<and> (rho th = Some r \<and> (\<forall>h\<in>set (nesting_ids m). 0 < r h \<and> r h < 1)
      \<longrightarrow> share_engine delta th m = Inr (predicted_shares delta th m))"
proof (intro conjI impI)
  assume "rho th = Some r \<and> (\<exists>h\<in>set (nesting_ids m). r h = 1)"
  then show "share_engine delta th m = Inl DomainError"
    by (auto simp: share_engine_def list_ex_iff)
next
  assume "rho th = Some r \<and> (\<forall>h\<in>set (nesting_ids m). 0 < r h \<and> r h < 1)"
  then have "rho th = Some r" "\<not> list_ex (\<lambda>h. 1 - r h = 0) (nesting_ids m)"
    by (auto simp: list_ex_iff)
  then show "share_engine delta th m = Inr (predicted_shares delta th m)"
    by (simp add: share_engine_def)
qed

theorem share_engine_domain_error_witness:
  "share_engine [0, 0] \<lparr>Sigma = [[1]], Pi = [[]], rho = Some (\<lambda>h. if h = 0 then 1/2 else 1)\<rparr>
      \<lparr>X2 = [[1], [2]], agents = [\<lparr>weight = 1, nodes = [0], demographics = []\<rparr>],
       nesting_ids = [0, 1]\<rparr> = Inl DomainError
   \<and> share_engine [0, 0] \<lparr>Sigma = [[1]], Pi = [[]], rho = Some (\<lambda>h. 1/2)\<rparr> half_market
     = Inr (predicted_shares [0, 0] \<lparr>Sigma = [[1]], Pi = [[]], rho = Some (\<lambda>h. 1/2)\<rparr> half_market)"
proof
  let ?th = "\<lparr>Sigma = [[1]], Pi = [[]], rho = Some (\<lambda>h. if h = 0 then 1/2 else (1::real))\<rparr>"
  let ?m = "\<lparr>X2 = [[1], [2]], agents = [\<lparr>weight = 1, nodes = [0], demographics = []\<rparr>],
       nesting_ids = [0, 1]\<rparr>"
  have "rho ?th = Some (\<lambda>h. if h = 0 then 1/2 else 1)
      \<and> (\<exists>h\<in>set (nesting_ids ?m). (\<lambda>h. if h = 0 then 1/2 else (1::real)) h = 1)"
    by simp
  with share_engine_domain_error [of ?th "\<lambda>h. if h = 0 then 1/2 else 1" ?m "[0, 0]"]
  show "share_engine [0, 0] ?th ?m = Inl DomainError" by blast
next
  let ?th = "\<lparr>Sigma = [[1]], Pi = [[]], rho = Some (\<lambda>h. 1/2 :: real)\<rparr>"
  have "rho ?th = Some (\<lambda>h. 1/2) \<and> (\<forall>h\<in>set (nesting_ids half_market). 0 < (1/2::real) \<and> (1/2::real) < 1)"
    by simp
  with share_engine_domain_error [of ?th "\<lambda>h. 1/2" half_market "[0, 0]"]
  show "share_engine [0, 0] ?th half_market = Inr (predicted_shares [0, 0] ?th half_market)"
    by blast
qed


section \<open>Micro moments use their relevant markets only\<close>

lemma market_micro_mean_cong:
  "w t = w' t \<Longrightarrow> agent_values mm t = agent_values mm' t
   \<Longrightarrow> market_micro_mean w mm t = market_micro_mean w' mm' t"
  by (simp add: market_micro_mean_def)

lemma market_micro_covariance_cong:
  "w t = w' t \<Longrightarrow> agent_values mm t = agent_values mm' t
   \<Longrightarrow> agent_values nn t = agent_values nn' t
   \<Longrightarrow> market_micro_covariance w mm nn t = market_micro_covariance w' mm' nn' t"
  by (simp add: market_micro_covariance_def market_micro_mean_def)

text \<open>
  Claim C7. The covariance entry of two micro moments \<open>m\<close> and \<open>n\<close> is exactly zero when
  \<open>T\<^sub>m \<inter> T\<^sub>n\<close> is empty; otherwise it is the sum over the markets of \<open>T\<^sub>m \<inter> T\<^sub>n\<close> of the
  weighted products of deviations divided by \<open>|T\<^sub>m \<inter> T\<^sub>n|\<close>, and it depends on the weights
  and on the agent values in the markets of the intersection only. The averaged micro moment
  \<open>m\<close> is the sum over its relevant markets \<open>T\<^sub>m\<close> divided by \<open>|T\<^sub>m|\<close> and depends on the
  data of the markets of \<open>T\<^sub>m\<close> only.
\<close>

theorem micro_moments_relevant_markets:
  "(relevant_markets mm \<inter> relevant_markets nn = {} \<longrightarrow> micro_covariance w mm nn = 0)
   \<and> (relevant_markets mm \<inter> relevant_markets nn \<noteq> {} \<longrightarrow>
        micro_covariance w mm nn
        = (\<Sum>t\<in>relevant_markets mm \<inter> relevant_markets nn.
             sum_list (map (\<lambda>(wi, gm, gn). wi * (gm - dot (w t) (agent_values mm t))
                                               * (gn - dot (w t) (agent_values nn t)))
                           (zip (w t) (zip (agent_values mm t) (agent_values nn t)))))
          / real (card (relevant_markets mm \<inter> relevant_markets nn)))
   \<and> (relevant_markets mm' = relevant_markets mm \<and> relevant_markets nn' = relevant_markets nn
        \<and> agree_on (relevant_markets mm \<inter> relevant_markets nn) w w'
        \<and> agree_on (relevant_markets mm \<inter> relevant_markets nn) (agent_values mm) (agent_values mm')
        \<and> agree_on (relevant_markets mm \<inter> relevant_markets nn) (agent_values nn) (agent_values nn')
      \<longrightarrow> micro_covariance w' mm' nn' = micro_covariance w mm nn)
   \<and> (finite (relevant_markets mm) \<and> relevant_markets mm \<noteq> {} \<longrightarrow>
        averaged_micro_moment w mm
        = Some ((\<Sum>t\<in>relevant_markets mm. dot (w t) (agent_values mm t))
                / real (card (relevant_markets mm))))
   \<and> (relevant_markets mm' = relevant_markets mm
        \<and> agree_on (relevant_markets mm) w w'
        \<and> agree_on (relevant_markets mm) (agent_values mm) (agent_values mm')
      \<longrightarrow> averaged_micro_moment w' mm' = averaged_micro_moment w mm)"
proof (intro conjI impI)
  assume "relevant_markets mm \<inter> relevant_markets nn = {}"
  then show "micro_covariance w mm nn = 0" by (simp add: micro_covariance_def)
next
  assume "relevant_markets mm \<inter> relevant_markets nn \<noteq> {}"
  then show "micro_covariance w mm nn
        = (\<Sum>t\<in>relevant_markets mm \<inter> relevant_markets nn.
             sum_list (map (\<lambda>(wi, gm, gn). wi * (gm - dot (w t) (agent_values mm t))
                                               * (gn - dot (w t) (agent_values nn t)))
                           (zip (w t) (zip (agent_values mm t) (agent_values nn t)))))
          / real (card (relevant_markets mm \<inter> relevant_markets nn))"
    by (simp add: micro_covariance_def market_micro_covariance_def market_micro_mean_def)
next
  assume a: "relevant_markets mm' = relevant_markets mm \<and> relevant_markets nn' = relevant_markets nn
        \<and> agree_on (relevant_markets mm \<inter> relevant_markets nn) w w'
        \<and> agree_on (relevant_markets mm \<inter> relevant_markets nn) (agent_values mm) (agent_values mm')
        \<and> agree_on (relevant_markets mm \<inter> relevant_markets nn) (agent_values nn) (agent_values nn')"
  let ?T = "relevant_markets mm \<inter> relevant_markets nn"
  have "(\<Sum>t\<in>?T. market_micro_covariance w' mm' nn' t) = (\<Sum>t\<in>?T. market_micro_covariance w mm nn t)"
  proof (rule sum.cong [OF refl])
    fix t assume "t \<in> ?T"
    then have "w' t = w t" "agent_values mm' t = agent_values mm t"
        "agent_values nn' t = agent_values nn t"
      using a by (simp_all add: agree_on_def)
    then show "market_micro_covariance w' mm' nn' t = market_micro_covariance w mm nn t"
      by (rule market_micro_covariance_cong)
  qed
  then show "micro_covariance w' mm' nn' = micro_covariance w mm nn"
    using a by (simp add: micro_covariance_def)
next
  assume "finite (relevant_markets mm) \<and> relevant_markets mm \<noteq> {}"
  then show "averaged_micro_moment w mm
        = Some ((\<Sum>t\<in>relevant_markets mm. dot (w t) (agent_values mm t))
                / real (card (relevant_markets mm)))"
    by (simp add: averaged_micro_moment_def market_micro_mean_def)
next
  assume a: "relevant_markets mm' = relevant_markets mm
        \<and> agree_on (relevant_markets mm) w w'
        \<and> agree_on (relevant_markets mm) (agent_values mm) (agent_values mm')"
  have "(\<Sum>t\<in>relevant_markets mm. market_micro_mean w' mm' t)
      = (\<Sum>t\<in>relevant_markets mm. market_micro_mean w mm t)"
  proof (rule sum.cong [OF refl])
    fix t assume "t \<in> relevant_markets mm"
    then have "w' t = w t" "agent_values mm' t = agent_values mm t"
      using a by (simp_all add: agree_on_def)
    then show "market_micro_mean w' mm' t = market_micro_mean w mm t"
      by (rule market_micro_mean_cong)
  qed
  then show "averaged_micro_moment w' mm' = averaged_micro_moment w mm"
    using a by (simp add: averaged_micro_moment_def)
qed

theorem micro_moments_relevant_markets_witness:
  "micro_covariance survey_weights moment_a moment_c = 0
   \<and> micro_covariance survey_weights moment_a moment_b = 1
   \<and> micro_covariance survey_weights moment_a_alt moment_b
     = micro_covariance survey_weights moment_a moment_b
   \<and> averaged_micro_moment survey_weights moment_a = Some (5/2)
   \<and> averaged_micro_moment survey_weights moment_a_alt = Some (11/2)"
proof -
  note t = micro_moments_relevant_markets
  have i: "relevant_markets moment_a \<inter> relevant_markets moment_b = {2}"
    by (simp add: moment_a_def moment_b_def)
  have 1: "micro_covariance survey_weights moment_a moment_c = 0"
    using t [of moment_a moment_c survey_weights]
    by (simp add: moment_a_def moment_c_def)
  have 2: "micro_covariance survey_weights moment_a moment_b = 1"
    using t [of moment_a moment_b survey_weights] unfolding i
    by (simp add: moment_a_def moment_b_def survey_weights_def dot_def)
  have 3: "micro_covariance survey_weights moment_a_alt moment_b
     = micro_covariance survey_weights moment_a moment_b"
    using t [of moment_a moment_b survey_weights moment_a_alt moment_b survey_weights] unfolding i
    by (simp add: agree_on_def moment_a_def moment_a_alt_def)
  have 4: "averaged_micro_moment survey_weights moment_a = Some (5/2)"
    using t [of moment_a moment_b survey_weights]
    by (simp add: moment_a_def survey_weights_def dot_def)
  have 5: "averaged_micro_moment survey_weights moment_a_alt = Some (11/2)"
    using t [of moment_a_alt moment_b survey_weights]
    by (simp add: moment_a_alt_def survey_weights_def dot_def)
  show ?thesis using 1 2 3 4 5 by simp
qed

section \<open>Robust and clustered covariance estimators\<close>

lemma outer_sum_cong:
  assumes "length vs = length us" "\<And>j a. j < length vs \<Longrightarrow> a < M \<Longrightarrow> vs ! j ! a = us ! j ! a"
  shows "outer_sum M vs = outer_sum M us"
proof -
  have "sum_list (map (\<lambda>v. v ! a * v ! b) vs) = sum_list (map (\<lambda>v. v ! a * v ! b) us)"
    if "a < M" "b < M" for a b
  proof -
    have "map (\<lambda>v. v ! a * v ! b) vs = map (\<lambda>v. v ! a * v ! b) us"
      by (rule nth_equalityI) (use assms that in auto)
    then show ?thesis by simp
  qed
  then show ?thesis by (simp add: outer_sum_def)
qed

lemma filter_distinct_key:
  assumes "distinct (map snd zs)" "x \<in> set zs"
  shows "filter (\<lambda>z. snd z = snd x) zs = [x]"
  using assms
proof (induction zs)
  case Nil
  then show ?case by simp
next
  case (Cons z zs)
  show ?case
  proof (cases "x = z")
    case True
    have "snd z \<notin> snd ` set zs" using Cons.prems(1) by simp
    then have "filter (\<lambda>y. snd y = snd z) zs = []"
      unfolding filter_empty_conv by (metis imageI)
    then show ?thesis using True by simp
  next
    case False
    then have x: "x \<in> set zs" using Cons.prems(2) by simp
    then have "snd z \<noteq> snd x" using Cons.prems(1) by force
    then show ?thesis using Cons.IH [OF _ x] Cons.prems(1) by simp
  qed
qed

lemma cluster_members_singleton:
  assumes "distinct cids" "length cids = length gs" "j < length gs"
  shows "cluster_members gs cids (cids ! j) = [gs ! j]"
proof -
  have d: "distinct (map snd (zip gs cids))" using assms by simp
  have m: "(gs ! j, cids ! j) \<in> set (zip gs cids)"
    using assms by (auto simp: in_set_zip)
  show ?thesis
    using filter_distinct_key [OF d m] by (simp add: cluster_members_def)
qed

lemma remdups_replicate_single: "remdups (replicate (Suc n) c) = [c]"
  by (induction n) auto

lemma cluster_members_replicate:
  "cluster_members gs (replicate (length gs) c) c = gs"
proof -
  have "filter (\<lambda>gc. snd gc = c) (zip gs (replicate (length gs) c)) = zip gs (replicate (length gs) c)"
    by (rule filter_True) (auto dest: set_zip_rightD)
  then show ?thesis by (simp add: cluster_members_def)
qed

text \<open>
  Claim C8, as amended. The clustered estimator equals the robust estimator at the boundary
  where every product is its own singleton cluster (pairwise distinct cluster ids, \<open>C = N\<close>).
  With a single cluster that contains every product (\<open>C = 1\<close>) the clustered estimator is
  \<open>(1/N) (\<Sum> g\<^sub>j\<^sub>t) (\<Sum> g\<^sub>j\<^sub>t)'\<close>, the outer product of the collapsed moment.
\<close>

theorem clustered_S_boundary:
  "(distinct cids \<and> length cids = length gs \<longrightarrow> clustered_S M gs cids = robust_S M gs)
   \<and> (gs \<noteq> [] \<longrightarrow>
        clustered_S M gs (replicate (length gs) c)
        = mat_scale (1 / real (length gs)) (outer_sum M [vec_sum M gs]))"
proof (intro conjI impI)
  assume a: "distinct cids \<and> length cids = length gs"
  then have rd: "remdups cids = cids" by (simp add: distinct_remdups_id)
  have "outer_sum M (cluster_sums M gs cids) = outer_sum M gs"
  proof (rule outer_sum_cong)
    show "length (cluster_sums M gs cids) = length gs"
      using a by (simp add: cluster_sums_def rd)
    fix j k assume "j < length (cluster_sums M gs cids)" "k < M"
    then have j: "j < length gs" and k: "k < M" using a by (simp_all add: cluster_sums_def rd)
    have "cluster_sums M gs cids ! j = vec_sum M (cluster_members gs cids (cids ! j))"
      using a j by (simp add: cluster_sums_def rd)
    also have "\<dots> = vec_sum M [gs ! j]"
      using a j by (simp add: cluster_members_singleton)
    finally show "cluster_sums M gs cids ! j ! k = gs ! j ! k"
      using k by (simp add: vec_sum_def)
  qed
  then show "clustered_S M gs cids = robust_S M gs"
    by (simp add: clustered_S_def robust_S_def)
next
  assume "gs \<noteq> []"
  then have "remdups (replicate (length gs) c) = [c]"
    using remdups_replicate_single [of "length gs - 1" c] by simp
  then show "clustered_S M gs (replicate (length gs) c)
        = mat_scale (1 / real (length gs)) (outer_sum M [vec_sum M gs])"
    by (simp add: clustered_S_def cluster_sums_def cluster_members_replicate)
qed

text \<open>
  The two formulas \<open>(1/N) \<Sum> g g'\<close> and \<open>(1/N) (\<Sum> g) (\<Sum> g)'\<close> do not agree for a single
  cluster over two products with moments \<open>1\<close> and \<open>1\<close>: the first is \<open>1\<close>, the second \<open>2\<close>.
\<close>

theorem clustered_S_single_cluster_counterexample:
  "robust_S 1 [[1], [1]] = [[1]] \<and> clustered_S 1 [[1], [1]] [0, 0] = [[2]]
   \<and> clustered_S 1 [[1], [1]] [0, 0] \<noteq> robust_S 1 [[1], [1]]"
  by (simp add: robust_S_def clustered_S_def outer_sum_def mat_scale_def cluster_sums_def
      cluster_members_def vec_sum_def)

theorem clustered_S_boundary_witness:
  "clustered_S 1 [[1], [1]] [0, 1] = robust_S 1 [[1], [1]]
   \<and> clustered_S 1 [[1], [1]] [0, 0] = [[2]]
   \<and> clustered_S 2 [[3, 4]] [7] = robust_S 2 [[3, 4]]"
proof -
  have 1: "clustered_S 1 [[1], [1]] [0, 1] = robust_S 1 [[1], [1]]"
    using clustered_S_boundary [of "[0, 1]" "[[1], [1]]" 1 0, THEN conjunct1] by simp
  have 2: "clustered_S 1 [[1], [1]] [0, 0] = [[2]]"
    using clustered_S_boundary [of "[0, 1]" "[[1], [1]]" 1 0, THEN conjunct2]
    by (simp add: outer_sum_def mat_scale_def vec_sum_def numeral_2_eq_2)
  have 3: "clustered_S 2 [[3, 4]] [7] = robust_S 2 [[3, 4]]"
    using clustered_S_boundary [of "[7]" "[[3, 4]]" 2 0, THEN conjunct1] by simp
  show ?thesis using 1 2 3 by simp
qed

section \<open>The sandwich covariance with an efficient weighting matrix\<close>

lemma meat_eq_bread:
  assumes G: "is_mat M P G" and W: "is_mat M M W" and S: "is_mat M M S"
    and M: "0 < M" and invert: "is_inverse S W"
  shows "meat G W S = bread G W"
proof -
  have Gt: "is_mat P M (transpose_m G)" by (rule is_mat_transpose_m [OF G M])
  have GtW: "is_mat P M (mat_mul (transpose_m G) W)" by (rule is_mat_mat_mul [OF Gt W M])
  have SW: "mat_mul S W = identity M"
    using invert S by (simp add: is_inverse_def is_mat_length)
  have "mat_mul (mat_mul (mat_mul (transpose_m G) W) S) W
      = mat_mul (mat_mul (transpose_m G) W) (mat_mul S W)"
    by (rule mat_mul_assoc [OF GtW S W M M])
  also have "\<dots> = mat_mul (transpose_m G) W"
    unfolding SW by (rule mat_mul_identity_right [OF GtW M])
  finally show ?thesis by (simp add: meat_def bread_def)
qed

text \<open>
  Claim C9. For \<open>G\<close> of dimension \<open>M \<times> P\<close> and \<open>W\<close>, \<open>S\<close> of dimension \<open>M \<times> M\<close>, if
  \<open>W\<close> is exactly the inverse of \<open>S\<close> and \<open>G'WG\<close> is invertible (the inversion routine returns
  its inverse), the sandwich covariance \<open>(G'WG)\<^sup>-\<^sup>1 G'WSWG (G'WG)\<^sup>-\<^sup>1\<close> equals \<open>(G'WG)\<^sup>-\<^sup>1\<close>,
  and the standard errors are \<open>sqrt (Var(\<theta>)\<^sub>p\<^sub>p / N)\<close> entry by entry.
\<close>

theorem sandwich_simplifies:
  assumes G: "is_mat M P G" and W: "is_mat M M W" and S: "is_mat M M S"
    and M: "0 < M" and P: "0 < P"
    and WS: "is_inverse S W"
    and B: "is_mat P P (invert (bread G W))"
    and AB: "is_inverse (bread G W) (invert (bread G W))"
  shows "covariances invert G W S = unadjusted_covariances invert G W
       \<and> standard_errors N (covariances invert G W S)
         = map (\<lambda>p. sqrt (unadjusted_covariances invert G W ! p ! p / real N)) [0..<P]
       \<and> (\<forall>p<length V. standard_errors N V ! p = sqrt (V ! p ! p / real N))"
proof -
  let ?A = "bread G W" and ?B = "invert (bread G W)"
  have Gt: "is_mat P M (transpose_m G)" by (rule is_mat_transpose_m [OF G M])
  have GtW: "is_mat P M (mat_mul (transpose_m G) W)" by (rule is_mat_mat_mul [OF Gt W M])
  have A: "is_mat P P ?A" unfolding bread_def by (rule is_mat_mat_mul [OF GtW G M])
  have BA: "mat_mul ?B ?A = identity P"
    using AB A by (simp add: is_inverse_def is_mat_length)
  have "covariances invert G W S = mat_mul (mat_mul ?B ?A) ?B"
    by (simp add: covariances_def meat_eq_bread [OF G W S M WS])
  also have "\<dots> = ?B" unfolding BA by (rule mat_mul_identity_left [OF B P])
  finally have c: "covariances invert G W S = unadjusted_covariances invert G W"
    by (simp add: unadjusted_covariances_def)
  have l: "length (unadjusted_covariances invert G W) = P"
    using B by (simp add: unadjusted_covariances_def is_mat_length)
  show ?thesis using c l by (simp add: standard_errors_def)
qed

theorem sandwich_simplifies_witness:
  "covariances inverse_1x1 [[2]] [[1/3]] [[3]] = [[3/4]]
   \<and> standard_errors 3 (covariances inverse_1x1 [[2]] [[1/3]] [[3]]) = [1/2]
   \<and> standard_errors 4 [[16, 1], [1, 36]] ! 1 = 3"
proof -
  have e: "bread [[2]] [[1/3]] = [[4/3]]"
    by (simp add: bread_def mat_mul_def transpose_m_def ncols_def col_def dot_def)
  have h: "is_mat 1 1 [[2]]" "is_mat 1 1 [[1/3]]" "is_mat 1 1 [[3]]" "0 < (1::nat)"
    "is_inverse [[3]] [[1/3]]"
    "is_mat 1 1 (inverse_1x1 (bread [[2]] [[1/3]]))"
    "is_inverse (bread [[2]] [[1/3]]) (inverse_1x1 (bread [[2]] [[1/3]]))"
    by (simp_all add: e is_mat_def is_inverse_def inverse_1x1_def mat_mul_def ncols_def col_def
        dot_def identity_def)
  note t = sandwich_simplifies [where invert = inverse_1x1 and N = 3 and V = "[[16, 1], [1, 36]]",
      OF h(1,2,3,4,4,5,6,7)]
  have u: "unadjusted_covariances inverse_1x1 [[2]] [[1/3]] = [[3/4]]"
    by (simp add: unadjusted_covariances_def e inverse_1x1_def)
  have s: "sqrt (3 / (4 * 3)) = 1 / 2"
    by (simp add: real_sqrt_divide)
  have 1: "covariances inverse_1x1 [[2]] [[1/3]] [[3]] = [[3/4]]" using t u by simp
  have "standard_errors 3 (covariances inverse_1x1 [[2]] [[1/3]] [[3]])
      = map (\<lambda>p. sqrt (unadjusted_covariances inverse_1x1 [[2]] [[1/3]] ! p ! p / real 3)) [0..<1]"
    using t by blast
  also have "\<dots> = [1/2]" unfolding u using s by simp
  finally have 2: "standard_errors 3 (covariances inverse_1x1 [[2]] [[1/3]] [[3]]) = [1/2]" .
  have "standard_errors 4 [[16, 1], [1, 36]] ! 1 = sqrt (36 / 4)"
    using sandwich_simplifies [where invert = inverse_1x1 and N = 4 and V = "[[16, 1], [1, 36]]",
      OF h(1,2,3,4,4,5,6,7)] by simp
  also have "\<dots> = sqrt (3 ^ 2)" by simp
  also have "\<dots> = 3" by (simp del: power2_eq_square)
  finally have 3: "standard_errors 4 [[16, 1], [1, 36]] ! 1 = 3" .
  show ?thesis using 1 2 3 by simp
qed

section \<open>Objective and gradient returned by the GMM engine\<close>

lemma objective_sum:
  assumes "is_mat M M W" "length g = M"
  shows "objective N W g = (real N)\<^sup>2 * (\<Sum>i<M. \<Sum>j<M. g ! i * W ! i ! j * g ! j)"
proof -
  have "dot g (mat_vec W g) = (\<Sum>i<M. g ! i * mat_vec W g ! i)"
    by (rule dot_sum) (use assms in \<open>simp_all add: length_mat_vec is_mat_length\<close>)
  also have "\<dots> = (\<Sum>i<M. g ! i * (\<Sum>j<M. W ! i ! j * g ! j))"
    by (intro sum.cong refl) (simp add: mat_vec_nth [OF assms])
  also have "\<dots> = (\<Sum>i<M. \<Sum>j<M. g ! i * W ! i ! j * g ! j)"
    by (simp add: sum_distrib_left mult.assoc)
  finally show ?thesis by (simp add: objective_def)
qed

lemma gradient_sum:
  assumes "is_mat M M W" "length g = M" "is_mat M P G" "0 < M" "p < P"
  shows "gradient N W G g ! p = 2 * (real N)\<^sup>2 * (\<Sum>i<M. \<Sum>j<M. G ! i ! p * W ! i ! j * g ! j)"
proof -
  have Gt: "is_mat P M (transpose_m G)" by (rule is_mat_transpose_m [OF assms(3,4)])
  have "mat_vec (transpose_m G) (mat_vec W g) ! p
      = (\<Sum>i<M. transpose_m G ! p ! i * mat_vec W g ! i)"
    by (rule mat_vec_nth [OF Gt _ assms(5)]) (use assms in \<open>simp add: length_mat_vec is_mat_length\<close>)
  also have "\<dots> = (\<Sum>i<M. G ! i ! p * (\<Sum>j<M. W ! i ! j * g ! j))"
    by (intro sum.cong refl)
       (simp add: mat_vec_nth [OF assms(1,2)] transpose_m_nth [OF assms(3,4,5)])
  also have "\<dots> = (\<Sum>i<M. \<Sum>j<M. G ! i ! p * W ! i ! j * g ! j)"
    by (simp add: sum_distrib_left mult.assoc)
  finally show ?thesis
    using assms(5) Gt by (simp add: gradient_def length_mat_vec is_mat_length)
qed

lemma length_gradient:
  assumes "is_mat M P G" "0 < M"
  shows "length (gradient N W G g) = P"
  using is_mat_transpose_m [OF assms] by (simp add: gradient_def length_mat_vec is_mat_length)

text \<open>
  Claim C1. For every weighting matrix \<open>W\<close> (\<open>M \<times> M\<close>), averaged moments \<open>g\<close> (length \<open>M\<close>)
  and Jacobian \<open>G\<close> (\<open>M \<times> P\<close>) the GMM engine returns the objective
  \<open>q = N\<^sup>2 \<Sum>\<^sub>i \<Sum>\<^sub>j g\<^sub>i W\<^sub>i\<^sub>j g\<^sub>j = N\<^sup>2 g'Wg\<close> and the gradient with the \<open>P\<close> entries
  \<open>2 N\<^sup>2 \<Sum>\<^sub>i \<Sum>\<^sub>j G\<^sub>i\<^sub>p W\<^sub>i\<^sub>j g\<^sub>j = 2 N\<^sup>2 (G'Wg)\<^sub>p\<close>.
\<close>

theorem gmm_objective_gradient:
  assumes "is_mat M M W" "length g = M" "is_mat M P G" "0 < M"
  shows "fst (gmm_engine N W G g) = (real N)\<^sup>2 * (\<Sum>i<M. \<Sum>j<M. g ! i * W ! i ! j * g ! j)
       \<and> length (snd (gmm_engine N W G g)) = P
       \<and> (\<forall>p<P. snd (gmm_engine N W G g) ! p
              = 2 * (real N)\<^sup>2 * (\<Sum>i<M. \<Sum>j<M. G ! i ! p * W ! i ! j * g ! j))"
  using objective_sum [OF assms(1,2)] length_gradient [OF assms(3,4)]
    gradient_sum [OF assms(1,2,3,4)]
  by (simp add: gmm_engine_def)

lemma symmetric_nth:
  assumes "is_mat M M W" "symmetric W" "0 < M" "i < M" "j < M"
  shows "W ! i ! j = W ! j ! i"
proof -
  have "W ! i ! j = transpose_m W ! i ! j" using assms(2) by (simp add: symmetric_def)
  also have "\<dots> = W ! j ! i" by (rule transpose_m_nth [OF assms(1,3,4,5)])
  finally show ?thesis .
qed

text \<open>
  For a symmetric weighting matrix the returned gradient is the derivative of the returned
  objective: if along the parameter \<open>\<theta>\<^sub>p\<close> the moments have the derivatives given by column
  \<open>p\<close> of \<open>G\<close>, the objective has the derivative given by entry \<open>p\<close> of the gradient.
\<close>

lemma gradient_is_derivative:
  assumes W: "is_mat M M W" and sym: "symmetric W" and G: "is_mat M P G"
    and M: "0 < M" and p: "p < P"
    and len: "\<And>t. length (g t) = M"
    and der: "\<And>i. i < M \<Longrightarrow> ((\<lambda>t. g t ! i) has_real_derivative G ! i ! p) (at x)"
  shows "((\<lambda>t. objective N W (g t)) has_real_derivative gradient N W G (g x) ! p) (at x)"
proof -
  let ?D = "(real N)\<^sup>2 * (\<Sum>i<M. \<Sum>j<M. (G ! i ! p * W ! i ! j) * g x ! j
                                         + g x ! i * W ! i ! j * G ! j ! p)"
  have "((\<lambda>t. (real N)\<^sup>2 * (\<Sum>i<M. \<Sum>j<M. g t ! i * W ! i ! j * g t ! j))
          has_real_derivative ?D) (at x)"
    by (rule DERIV_cmult, rule DERIV_sum, rule DERIV_sum)
       (auto intro!: derivative_eq_intros der)
  then have d: "((\<lambda>t. objective N W (g t)) has_real_derivative ?D) (at x)"
    by (simp add: objective_sum [OF W len])
  have "(\<Sum>i<M. \<Sum>j<M. g x ! i * W ! i ! j * G ! j ! p)
      = (\<Sum>j<M. \<Sum>i<M. g x ! i * W ! i ! j * G ! j ! p)"
    by (rule sum.swap)
  also have "\<dots> = (\<Sum>j<M. \<Sum>i<M. G ! j ! p * W ! j ! i * g x ! i)"
    by (intro sum.cong refl) (simp add: symmetric_nth [OF W sym M] mult_ac)
  finally have s: "(\<Sum>i<M. \<Sum>j<M. g x ! i * W ! i ! j * G ! j ! p)
      = (\<Sum>i<M. \<Sum>j<M. G ! i ! p * W ! i ! j * g x ! j)" .
  have "?D = (real N)\<^sup>2 * ((\<Sum>i<M. \<Sum>j<M. G ! i ! p * W ! i ! j * g x ! j)
                           + (\<Sum>i<M. \<Sum>j<M. g x ! i * W ! i ! j * G ! j ! p))"
    by (simp add: sum.distrib)
  also have "\<dots> = gradient N W G (g x) ! p"
    by (simp add: s gradient_sum [OF W len G M p])
  finally show ?thesis using d by simp
qed

theorem gmm_objective_gradient_witness:
  "fst (gmm_engine 2 [[1, 0], [0, 2]] [[1], [3]] [1, 1]) = 12
   \<and> snd (gmm_engine 2 [[1, 0], [0, 2]] [[1], [3]] [1, 1]) = [56]"
proof -
  have h: "is_mat 2 2 [[1, 0], [0, 2]]" "length [1, 1 :: real] = 2" "is_mat 2 1 [[1], [3]]"
    "0 < (2 :: nat)"
    by (simp_all add: is_mat_def)
  note t = gmm_objective_gradient [OF h, of 2]
  have 1: "fst (gmm_engine 2 [[1, 0], [0, 2]] [[1], [3]] [1, 1]) = 12"
    using t by (simp add: lessThan_Suc numeral_2_eq_2)
  have l: "length (snd (gmm_engine 2 [[1, 0], [0, 2]] [[1], [3]] [1, 1])) = 1"
    using t by blast
  have "snd (gmm_engine 2 [[1, 0], [0, 2]] [[1], [3]] [1, 1]) ! 0 = 56"
    using t by (simp add: lessThan_Suc numeral_2_eq_2)
  then have 2: "snd (gmm_engine 2 [[1, 0], [0, 2]] [[1], [3]] [1, 1]) = [56]"
    using l by (cases "snd (gmm_engine 2 [[1, 0], [0, 2]] [[1], [3]] [1, 1])") auto
  show ?thesis using 1 2 by simp
qed

section \<open>The contraction and its termination\<close>










text \<open>
  The loop always returns: within its budget it either reaches the tolerance or reports
  that it has not.
\<close>

lemma iterate_contraction_total:
  "(\<exists>d. iterate_contraction nrm tol s th m k delta = Inr d)
   \<or> iterate_contraction nrm tol s th m k delta = Inl NonConvergence"
  by (induction k arbitrary: delta) (simp_all add: Let_def)

















section \<open>Absorbing a fixed effect\<close>

lemma mat_vec_transpose_nth:
  assumes "is_mat r c A" "0 < r" "length w = r" "i < c"
  shows "mat_vec (transpose_m A) w ! i = (\<Sum>j<r. A ! j ! i * w ! j)"
proof -
  have "mat_vec (transpose_m A) w ! i = (\<Sum>j<r. transpose_m A ! i ! j * w ! j)"
    by (rule mat_vec_nth [OF is_mat_transpose_m [OF assms(1,2)] assms(3,4)])
  also have "\<dots> = (\<Sum>j<r. A ! j ! i * w ! j)"
    by (intro sum.cong refl) (simp add: transpose_m_nth [OF assms(1,2,4)])
  finally show ?thesis .
qed

lemma length_mat_vec_transpose:
  assumes "is_mat r c A" "0 < r"
  shows "length (mat_vec (transpose_m A) w) = c"
  using is_mat_transpose_m [OF assms] by (simp add: length_mat_vec is_mat_length)

lemma mat_vec_mat_mul:
  assumes "is_mat r n A" "is_mat n c B" "0 < n" "length v = c"
  shows "mat_vec (mat_mul A B) v = mat_vec A (mat_vec B v)"
proof (rule nth_equalityI)
  have ab: "is_mat r c (mat_mul A B)" by (rule is_mat_mat_mul [OF assms(1,2,3)])
  show "length (mat_vec (mat_mul A B) v) = length (mat_vec A (mat_vec B v))"
    using ab assms(1) by (simp add: length_mat_vec is_mat_length)
  fix i assume "i < length (mat_vec (mat_mul A B) v)"
  then have i: "i < r" using ab by (simp add: length_mat_vec is_mat_length)
  have lb: "length (mat_vec B v) = n" using assms(2) by (simp add: length_mat_vec is_mat_length)
  have "mat_vec (mat_mul A B) v ! i = (\<Sum>l<c. mat_mul A B ! i ! l * v ! l)"
    by (rule mat_vec_nth [OF ab assms(4) i])
  also have "\<dots> = (\<Sum>l<c. (\<Sum>k<n. A ! i ! k * B ! k ! l) * v ! l)"
    by (intro sum.cong refl) (simp add: mat_mul_nth [OF assms(1,2,3) i])
  also have "\<dots> = (\<Sum>l<c. \<Sum>k<n. A ! i ! k * (B ! k ! l * v ! l))"
    by (simp add: sum_distrib_right mult.assoc)
  also have "\<dots> = (\<Sum>k<n. \<Sum>l<c. A ! i ! k * (B ! k ! l * v ! l))"
    by (rule sum.swap)
  also have "\<dots> = (\<Sum>k<n. A ! i ! k * (\<Sum>l<c. B ! k ! l * v ! l))"
    by (simp add: sum_distrib_left)
  also have "\<dots> = (\<Sum>k<n. A ! i ! k * mat_vec B v ! k)"
    by (intro sum.cong refl) (simp add: mat_vec_nth [OF assms(2,4)])
  also have "\<dots> = mat_vec A (mat_vec B v) ! i"
    by (rule mat_vec_nth [OF assms(1) lb i, symmetric])
  finally show "mat_vec (mat_mul A B) v ! i = mat_vec A (mat_vec B v) ! i" .
qed

lemma length_vec_sub: "length (vec_sub v w) = min (length v) (length w)"
  by (simp add: vec_sub_def)

lemma length_vec_add: "length (vec_add v w) = min (length v) (length w)"
  by (simp add: vec_add_def)

lemma vec_sub_nth: "i < length v \<Longrightarrow> i < length w \<Longrightarrow> vec_sub v w ! i = v ! i - w ! i"
  by (simp add: vec_sub_def)

lemma vec_add_nth: "i < length v \<Longrightarrow> i < length w \<Longrightarrow> vec_add v w ! i = v ! i + w ! i"
  by (simp add: vec_add_def)

lemma mat_vec_sub:
  assumes "is_mat r n A" "length v = n" "length w = n"
  shows "mat_vec A (vec_sub v w) = vec_sub (mat_vec A v) (mat_vec A w)"
proof (rule nth_equalityI)
  show "length (mat_vec A (vec_sub v w)) = length (vec_sub (mat_vec A v) (mat_vec A w))"
    by (simp add: length_mat_vec length_vec_sub)
  fix i assume "i < length (mat_vec A (vec_sub v w))"
  then have i: "i < r" using assms(1) by (simp add: length_mat_vec is_mat_length)
  have l: "length (vec_sub v w) = n" using assms by (simp add: length_vec_sub)
  have "mat_vec A (vec_sub v w) ! i = (\<Sum>k<n. A ! i ! k * vec_sub v w ! k)"
    by (rule mat_vec_nth [OF assms(1) l i])
  also have "\<dots> = (\<Sum>k<n. A ! i ! k * v ! k - A ! i ! k * w ! k)"
    using assms by (intro sum.cong refl) (simp add: vec_sub_nth right_diff_distrib)
  also have "\<dots> = mat_vec A v ! i - mat_vec A w ! i"
    by (simp add: sum_subtractf mat_vec_nth [OF assms(1,2) i] mat_vec_nth [OF assms(1,3) i])
  also have "\<dots> = vec_sub (mat_vec A v) (mat_vec A w) ! i"
    using i assms(1) by (simp add: vec_sub_nth length_mat_vec is_mat_length)
  finally show "mat_vec A (vec_sub v w) ! i = vec_sub (mat_vec A v) (mat_vec A w) ! i" .
qed

lemma mat_vec_identity:
  assumes "length v = n"
  shows "mat_vec (identity n) v = v"
proof (rule nth_equalityI)
  show "length (mat_vec (identity n) v) = length v"
    using assms by (simp add: length_mat_vec identity_def)
  fix i assume "i < length (mat_vec (identity n) v)"
  then have i: "i < n" by (simp add: length_mat_vec identity_def)
  have "mat_vec (identity n) v ! i = (\<Sum>k<n. identity n ! i ! k * v ! k)"
    by (rule mat_vec_nth [OF is_mat_identity assms i])
  also have "\<dots> = (\<Sum>k<n. if i = k then v ! k else 0)"
    using i by (intro sum.cong refl) (simp add: identity_nth)
  also have "\<dots> = v ! i" using i by simp
  finally show "mat_vec (identity n) v ! i = v ! i" .
qed

lemma vec_sub_self_zero:
  "vec_sub v v = replicate (length v) 0"
  by (rule nth_equalityI) (simp_all add: length_vec_sub vec_sub_nth)

lemma vec_sub_eq_zero_iff:
  assumes "length v = length w"
  shows "vec_sub v w = replicate (length v) 0 \<longleftrightarrow> v = w"
proof
  assume z: "vec_sub v w = replicate (length v) 0"
  show "v = w"
  proof (rule nth_equalityI [OF assms])
    fix i assume i: "i < length v"
    then have "vec_sub v w ! i = 0" using z by simp
    then show "v ! i = w ! i" using i assms by (simp add: vec_sub_nth)
  qed
next
  assume "v = w"
  then show "vec_sub v w = replicate (length v) 0" by (simp add: vec_sub_self_zero)
qed

lemma mat_vec_zero:
  assumes "is_mat r n A"
  shows "mat_vec A (replicate n 0) = replicate r 0"
proof (rule nth_equalityI)
  show "length (mat_vec A (replicate n 0)) = length (replicate r (0::real))"
    using assms by (simp add: length_mat_vec is_mat_length)
  fix i assume "i < length (mat_vec A (replicate n 0))"
  then have i: "i < r" using assms by (simp add: length_mat_vec is_mat_length)
  have "mat_vec A (replicate n 0) ! i = (\<Sum>k<n. A ! i ! k * replicate n 0 ! k)"
    by (rule mat_vec_nth [OF assms _ i]) simp
  also have "\<dots> = 0" by simp
  finally show "mat_vec A (replicate n 0) ! i = replicate r 0 ! i" using i by simp
qed

lemma is_mat_augment:
  assumes "is_mat N K A" "is_mat N L D"
  shows "is_mat N (K + L) (augment A D)"
  using assms by (intro is_matI) (simp_all add: augment_def is_mat_length is_mat_row)

lemma augment_nth:
  assumes "is_mat N K A" "is_mat N L D" "j < N"
  shows "augment A D ! j = A ! j @ D ! j"
  using assms by (simp add: augment_def is_mat_length)

lemma dot_append:
  assumes "length a = length u"
  shows "dot (a @ b) (u @ w) = dot a u + dot b w"
  using assms by (simp add: dot_def)

lemma mat_vec_augment:
  assumes "is_mat N K A" "is_mat N L D" "length u = K" "length w = L"
  shows "mat_vec (augment A D) (u @ w) = vec_add (mat_vec A u) (mat_vec D w)"
proof (rule nth_equalityI)
  show "length (mat_vec (augment A D) (u @ w)) = length (vec_add (mat_vec A u) (mat_vec D w))"
    using assms by (simp add: length_mat_vec length_vec_add augment_def is_mat_length)
  fix j assume "j < length (mat_vec (augment A D) (u @ w))"
  then have j: "j < N" using assms by (simp add: length_mat_vec augment_def is_mat_length)
  have "mat_vec (augment A D) (u @ w) ! j = dot (A ! j @ D ! j) (u @ w)"
    using j assms by (simp add: mat_vec_def augment_def is_mat_length)
  also have "\<dots> = dot (A ! j) u + dot (D ! j) w"
    by (rule dot_append) (use assms j in \<open>simp add: is_mat_row\<close>)
  also have "\<dots> = vec_add (mat_vec A u) (mat_vec D w) ! j"
    using j assms by (simp add: vec_add_nth length_mat_vec is_mat_length mat_vec_def)
  finally show "mat_vec (augment A D) (u @ w) ! j = vec_add (mat_vec A u) (mat_vec D w) ! j" .
qed

lemma mat_vec_transpose_augment:
  assumes "is_mat N K A" "is_mat N L D" "0 < N" "length e = N"
  shows "mat_vec (transpose_m (augment A D)) e
       = mat_vec (transpose_m A) e @ mat_vec (transpose_m D) e"
proof (rule nth_equalityI)
  have AD: "is_mat N (K + L) (augment A D)" by (rule is_mat_augment [OF assms(1,2)])
  show len: "length (mat_vec (transpose_m (augment A D)) e)
      = length (mat_vec (transpose_m A) e @ mat_vec (transpose_m D) e)"
    by (simp add: length_mat_vec_transpose [OF AD assms(3)]
        length_mat_vec_transpose [OF assms(1,3)] length_mat_vec_transpose [OF assms(2,3)])
  fix i assume "i < length (mat_vec (transpose_m (augment A D)) e)"
  then have i: "i < K + L" by (simp add: length_mat_vec_transpose [OF AD assms(3)])
  have l: "mat_vec (transpose_m (augment A D)) e ! i = (\<Sum>j<N. augment A D ! j ! i * e ! j)"
    by (rule mat_vec_transpose_nth [OF AD assms(3,4) i])
  show "mat_vec (transpose_m (augment A D)) e ! i
      = (mat_vec (transpose_m A) e @ mat_vec (transpose_m D) e) ! i"
  proof (cases "i < K")
    case True
    have "(\<Sum>j<N. augment A D ! j ! i * e ! j) = (\<Sum>j<N. A ! j ! i * e ! j)"
      using True assms
      by (intro sum.cong refl) (simp add: augment_nth [OF assms(1,2)] nth_append is_mat_row)
    then show ?thesis
      using True l
      by (simp add: nth_append length_mat_vec_transpose [OF assms(1,3)]
          mat_vec_transpose_nth [OF assms(1,3,4)])
  next
    case False
    then have iL: "i - K < L" using i by simp
    have "(\<Sum>j<N. augment A D ! j ! i * e ! j) = (\<Sum>j<N. D ! j ! (i - K) * e ! j)"
      using False assms
      by (intro sum.cong refl) (simp add: augment_nth [OF assms(1,2)] nth_append is_mat_row)
    then show ?thesis
      using False l iL
      by (simp add: nth_append length_mat_vec_transpose [OF assms(1,3)]
          mat_vec_transpose_nth [OF assms(2,3,4)])
  qed
qed

lemma sum_list_level_values:
  assumes "length v = length ids"
  shows "sum_list (level_values ids v l) = level_sum ids v l"
proof -
  have "sum_list (level_values ids v l)
      = sum_list (map (\<lambda>xi. if snd xi = l then fst xi else 0) (zip v ids))"
    unfolding level_values_def by (rule sum_list_map_filter')
  also have "\<dots> = (\<Sum>j = 0..<length (zip v ids). (if snd (zip v ids ! j) = l then fst (zip v ids ! j) else 0))"
    by (simp add: sum_list_sum_nth)
  also have "\<dots> = (\<Sum>j = 0..<length ids. if ids ! j = l then v ! j else 0)"
    using assms by (intro sum.cong) auto
  finally show ?thesis by (simp add: level_sum_def atLeast0LessThan)
qed

lemma length_level_values:
  assumes "length v = length ids"
  shows "real (length (level_values ids v l)) = level_count ids l"
proof -
  have "real (length (level_values ids v l))
      = sum_list (map (\<lambda>xi. 1) (filter (\<lambda>xi. snd xi = l) (zip v ids)))"
    by (simp add: level_values_def sum_list_triv)
  also have "\<dots> = sum_list (map (\<lambda>xi. if snd xi = l then 1 else 0) (zip v ids))"
    by (rule sum_list_map_filter')
  also have "\<dots> = (\<Sum>j = 0..<length (zip v ids). (if snd (zip v ids ! j) = l then 1 else 0))"
    by (simp add: sum_list_sum_nth)
  also have "\<dots> = (\<Sum>j = 0..<length ids. if ids ! j = l then 1 else 0)"
    using assms by (intro sum.cong) auto
  finally show ?thesis by (simp add: level_count_def atLeast0LessThan)
qed

lemma level_mean_sum:
  assumes "length v = length ids"
  shows "level_mean ids v l = level_sum ids v l / level_count ids l"
  by (simp add: level_mean_def sum_list_level_values [OF assms] length_level_values [OF assms])

lemma level_count_pos:
  assumes "l \<in> set ids"
  shows "0 < level_count ids l"
proof -
  obtain j where j: "j < length ids" "ids ! j = l" using assms by (auto simp: in_set_conv_nth)
  have "(if ids ! j = l then (1::real) else 0) \<le> level_count ids l"
    unfolding level_count_def
    by (rule member_le_sum) (use j in auto)
  then show ?thesis using j by simp
qed

lemma level_sum_sub:
  assumes "length v = length ids" "length w = length ids"
  shows "level_sum ids (vec_sub v w) l = level_sum ids v l - level_sum ids w l"
proof -
  have "level_sum ids (vec_sub v w) l
      = (\<Sum>j<length ids. (if ids ! j = l then v ! j else 0) - (if ids ! j = l then w ! j else 0))"
    unfolding level_sum_def using assms by (intro sum.cong refl) (simp add: vec_sub_nth)
  then show ?thesis by (simp add: sum_subtractf level_sum_def)
qed

lemma level_sum_add:
  assumes "length v = length ids" "length w = length ids"
  shows "level_sum ids (vec_add v w) l = level_sum ids v l + level_sum ids w l"
proof -
  have "level_sum ids (vec_add v w) l
      = (\<Sum>j<length ids. (if ids ! j = l then v ! j else 0) + (if ids ! j = l then w ! j else 0))"
    unfolding level_sum_def using assms by (intro sum.cong refl) (simp add: vec_add_nth)
  then show ?thesis by (simp add: sum.distrib level_sum_def)
qed

lemma length_demean_vec: "length (demean_vec ids v) = min (length v) (length ids)"
  by (simp add: demean_vec_def)

lemma demean_vec_nth:
  assumes "length v = length ids" "j < length ids"
  shows "demean_vec ids v ! j = v ! j - level_sum ids v (ids ! j) / level_count ids (ids ! j)"
  using assms by (simp add: demean_vec_def level_mean_sum)

lemma demean_vec_sub:
  assumes "length v = length ids" "length w = length ids"
  shows "demean_vec ids (vec_sub v w) = vec_sub (demean_vec ids v) (demean_vec ids w)"
proof (rule nth_equalityI)
  show "length (demean_vec ids (vec_sub v w)) = length (vec_sub (demean_vec ids v) (demean_vec ids w))"
    using assms by (simp add: length_demean_vec length_vec_sub)
  fix j assume "j < length (demean_vec ids (vec_sub v w))"
  then have j: "j < length ids" using assms by (simp add: length_demean_vec length_vec_sub)
  have l: "length (vec_sub v w) = length ids" using assms by (simp add: length_vec_sub)
  show "demean_vec ids (vec_sub v w) ! j = vec_sub (demean_vec ids v) (demean_vec ids w) ! j"
    using j assms
    by (simp add: demean_vec_nth [OF l j] demean_vec_nth [OF assms(1) j]
        demean_vec_nth [OF assms(2) j] vec_sub_nth length_demean_vec level_sum_sub diff_divide_distrib)
qed

lemma demean_vec_add:
  assumes "length v = length ids" "length w = length ids"
  shows "demean_vec ids (vec_add v w) = vec_add (demean_vec ids v) (demean_vec ids w)"
proof (rule nth_equalityI)
  show "length (demean_vec ids (vec_add v w)) = length (vec_add (demean_vec ids v) (demean_vec ids w))"
    using assms by (simp add: length_demean_vec length_vec_add)
  fix j assume "j < length (demean_vec ids (vec_add v w))"
  then have j: "j < length ids" using assms by (simp add: length_demean_vec length_vec_add)
  have l: "length (vec_add v w) = length ids" using assms by (simp add: length_vec_add)
  show "demean_vec ids (vec_add v w) ! j = vec_add (demean_vec ids v) (demean_vec ids w) ! j"
    using j assms
    by (simp add: demean_vec_nth [OF l j] demean_vec_nth [OF assms(1) j]
        demean_vec_nth [OF assms(2) j] vec_add_nth length_demean_vec level_sum_add add_divide_distrib)
qed

lemma demean_vec_fixed:
  assumes "length v = length ids" "\<And>l. l \<in> set ids \<Longrightarrow> level_sum ids v l = 0"
  shows "demean_vec ids v = v"
proof (rule nth_equalityI)
  show "length (demean_vec ids v) = length v" using assms(1) by (simp add: length_demean_vec)
  fix j assume "j < length (demean_vec ids v)"
  then have j: "j < length ids" using assms(1) by (simp add: length_demean_vec)
  then have "level_sum ids v (ids ! j) = 0" by (intro assms(2)) simp
  then show "demean_vec ids v ! j = v ! j" by (simp add: demean_vec_nth [OF assms(1) j])
qed

lemma demean_vec_level_constant:
  assumes "length v = length ids" "\<And>j. j < length ids \<Longrightarrow> v ! j = f (ids ! j)"
  shows "demean_vec ids v = replicate (length ids) 0"
proof (rule nth_equalityI)
  show "length (demean_vec ids v) = length (replicate (length ids) (0::real))"
    using assms(1) by (simp add: length_demean_vec)
  fix j assume "j < length (demean_vec ids v)"
  then have j: "j < length ids" using assms(1) by (simp add: length_demean_vec)
  let ?l = "ids ! j"
  have "level_sum ids v ?l = (\<Sum>k<length ids. f ?l * (if ids ! k = ?l then 1 else 0))"
    unfolding level_sum_def by (intro sum.cong refl) (auto simp: assms(2))
  also have "\<dots> = f ?l * level_count ids ?l"
    by (simp add: level_count_def sum_distrib_left)
  finally have "level_sum ids v ?l / level_count ids ?l = f ?l"
    using level_count_pos [of ?l ids] j by simp
  then show "demean_vec ids v ! j = replicate (length ids) 0 ! j"
    using j by (simp add: demean_vec_nth [OF assms(1) j] assms(2))
qed

lemma sum_by_level:
  fixes F :: "nat \<Rightarrow> real"
  shows "(\<Sum>j<length ids. F (ids ! j) * w ! j) = (\<Sum>l\<in>set ids. F l * level_sum ids w l)"
proof -
  have "(\<Sum>j<length ids. F (ids ! j) * w ! j)
      = (\<Sum>j<length ids. \<Sum>l\<in>set ids. if ids ! j = l then F l * w ! j else 0)"
    by (intro sum.cong refl) (simp add: sum.delta')
  also have "\<dots> = (\<Sum>l\<in>set ids. \<Sum>j<length ids. if ids ! j = l then F l * w ! j else 0)"
    by (rule sum.swap)
  also have "\<dots> = (\<Sum>l\<in>set ids. F l * level_sum ids w l)"
    by (intro sum.cong refl) (simp add: level_sum_def sum_distrib_left if_distrib cong: if_cong)
  finally show ?thesis .
qed

lemma demean_vec_symmetric:
  assumes "length v = length ids" "length w = length ids"
  shows "(\<Sum>j<length ids. demean_vec ids v ! j * w ! j) = (\<Sum>j<length ids. v ! j * demean_vec ids w ! j)"
proof -
  let ?c = "\<lambda>l. level_count ids l"
  have 1: "(\<Sum>j<length ids. demean_vec ids v ! j * w ! j)
      = (\<Sum>j<length ids. v ! j * w ! j) - (\<Sum>j<length ids. (level_sum ids v (ids ! j) / ?c (ids ! j)) * w ! j)"
    by (simp add: demean_vec_nth [OF assms(1)] left_diff_distrib sum_subtractf)
  have 2: "(\<Sum>j<length ids. v ! j * demean_vec ids w ! j)
      = (\<Sum>j<length ids. v ! j * w ! j) - (\<Sum>j<length ids. (level_sum ids w (ids ! j) / ?c (ids ! j)) * v ! j)"
    by (simp add: demean_vec_nth [OF assms(2)] right_diff_distrib sum_subtractf mult.commute)
  have "(\<Sum>j<length ids. (level_sum ids v (ids ! j) / ?c (ids ! j)) * w ! j)
      = (\<Sum>l\<in>set ids. (level_sum ids v l / ?c l) * level_sum ids w l)"
    by (rule sum_by_level [where F = "\<lambda>l. level_sum ids v l / ?c l"])
  also have "\<dots> = (\<Sum>l\<in>set ids. (level_sum ids w l / ?c l) * level_sum ids v l)"
    by (intro sum.cong refl) simp
  also have "\<dots> = (\<Sum>j<length ids. (level_sum ids w (ids ! j) / ?c (ids ! j)) * v ! j)"
    by (rule sum_by_level [where F = "\<lambda>l. level_sum ids w l / ?c l", symmetric])
  finally show ?thesis using 1 2 by simp
qed

lemma length_col: "length (col A c) = length A"
  by (simp add: col_def)

lemma col_nth: "j < length A \<Longrightarrow> col A c ! j = A ! j ! c"
  by (simp add: col_def)

lemma is_mat_demean:
  assumes "is_mat N K A" "length ids = N" "0 < N"
  shows "is_mat N K (demean ids A)"
  using assms is_mat_ncols [OF assms(1,3)]
  by (intro is_matI) (simp_all add: demean_def is_mat_length)

lemma demean_nth:
  assumes "is_mat N K A" "length ids = N" "0 < N" "j < N" "c < K"
  shows "demean ids A ! j ! c = demean_vec ids (col A c) ! j"
proof -
  have lc: "length (col A c) = length ids" using assms by (simp add: length_col is_mat_length)
  have "demean ids A ! j ! c = A ! j ! c - level_mean ids (col A c) (ids ! j)"
    using assms is_mat_ncols [OF assms(1,3)] by (simp add: demean_def is_mat_length)
  also have "\<dots> = demean_vec ids (col A c) ! j"
    using assms lc by (simp add: demean_vec_def col_nth is_mat_length)
  finally show ?thesis .
qed

lemma level_sum_mat_vec:
  assumes "is_mat N K A" "length ids = N" "length x = K"
  shows "level_sum ids (mat_vec A x) l = (\<Sum>c<K. level_sum ids (col A c) l * x ! c)"
proof -
  have "level_sum ids (mat_vec A x) l
      = (\<Sum>j<N. \<Sum>c<K. (if ids ! j = l then A ! j ! c else 0) * x ! c)"
    unfolding level_sum_def assms(2)
    by (intro sum.cong refl) (simp add: mat_vec_nth [OF assms(1,3)] sum_distrib_right)
  also have "\<dots> = (\<Sum>c<K. \<Sum>j<N. (if ids ! j = l then A ! j ! c else 0) * x ! c)"
    by (rule sum.swap)
  also have "\<dots> = (\<Sum>c<K. level_sum ids (col A c) l * x ! c)"
    unfolding level_sum_def assms(2) sum_distrib_right
    by (intro sum.cong refl) (use assms(1) in \<open>simp add: col_nth is_mat_length\<close>)
  finally show ?thesis .
qed

lemma demean_mat_vec:
  assumes "is_mat N K A" "length ids = N" "0 < N" "length x = K"
  shows "demean_vec ids (mat_vec A x) = mat_vec (demean ids A) x"
proof (rule nth_equalityI)
  have dA: "is_mat N K (demean ids A)" by (rule is_mat_demean [OF assms(1,2,3)])
  have lAx: "length (mat_vec A x) = length ids"
    using assms by (simp add: length_mat_vec is_mat_length)
  show "length (demean_vec ids (mat_vec A x)) = length (mat_vec (demean ids A) x)"
    using dA assms lAx by (simp add: length_demean_vec length_mat_vec is_mat_length)
  fix j assume "j < length (demean_vec ids (mat_vec A x))"
  then have j: "j < N" using lAx assms(2) by (simp add: length_demean_vec)
  then have j': "j < length ids" using assms(2) by simp
  let ?l = "ids ! j" and ?n = "level_count ids (ids ! j)"
  have "mat_vec (demean ids A) x ! j = (\<Sum>c<K. demean ids A ! j ! c * x ! c)"
    by (rule mat_vec_nth [OF dA assms(4) j])
  also have "\<dots> = (\<Sum>c<K. (A ! j ! c - level_sum ids (col A c) ?l / ?n) * x ! c)"
  proof (intro sum.cong refl)
    fix c assume "c \<in> {..<K}"
    then have c: "c < K" by simp
    have lc: "length (col A c) = length ids" using assms by (simp add: length_col is_mat_length)
    show "demean ids A ! j ! c * x ! c = (A ! j ! c - level_sum ids (col A c) ?l / ?n) * x ! c"
      using j assms(1)
      by (simp add: demean_nth [OF assms(1,2,3) j c] demean_vec_nth [OF lc j'] col_nth is_mat_length)
  qed
  also have "\<dots> = (\<Sum>c<K. A ! j ! c * x ! c) - (\<Sum>c<K. level_sum ids (col A c) ?l * x ! c) / ?n"
    by (simp add: left_diff_distrib sum_subtractf sum_divide_distrib)
  also have "\<dots> = mat_vec A x ! j - level_sum ids (mat_vec A x) ?l / ?n"
    by (simp add: mat_vec_nth [OF assms(1,4) j] level_sum_mat_vec [OF assms(1,2,4)])
  also have "\<dots> = demean_vec ids (mat_vec A x) ! j"
    by (simp add: demean_vec_nth [OF lAx j'])
  finally show "demean_vec ids (mat_vec A x) ! j = mat_vec (demean ids A) x ! j" by simp
qed

lemma demean_transpose_mat_vec:
  assumes "is_mat N K A" "length ids = N" "0 < N" "length w = N"
  shows "mat_vec (transpose_m (demean ids A)) w = mat_vec (transpose_m A) (demean_vec ids w)"
proof (rule nth_equalityI)
  have dA: "is_mat N K (demean ids A)" by (rule is_mat_demean [OF assms(1,2,3)])
  have lw: "length (demean_vec ids w) = N" using assms by (simp add: length_demean_vec)
  show "length (mat_vec (transpose_m (demean ids A)) w)
      = length (mat_vec (transpose_m A) (demean_vec ids w))"
    by (simp add: length_mat_vec_transpose [OF dA assms(3)] length_mat_vec_transpose [OF assms(1,3)])
  fix c assume "c < length (mat_vec (transpose_m (demean ids A)) w)"
  then have c: "c < K" by (simp add: length_mat_vec_transpose [OF dA assms(3)])
  have lc: "length (col A c) = length ids" using assms by (simp add: length_col is_mat_length)
  have lw': "length w = length ids" using assms by simp
  have "mat_vec (transpose_m (demean ids A)) w ! c = (\<Sum>j<N. demean ids A ! j ! c * w ! j)"
    by (rule mat_vec_transpose_nth [OF dA assms(3,4) c])
  also have "\<dots> = (\<Sum>j<length ids. demean_vec ids (col A c) ! j * w ! j)"
    unfolding assms(2) by (intro sum.cong refl) (simp add: demean_nth [OF assms(1,2,3) _ c])
  also have "\<dots> = (\<Sum>j<length ids. col A c ! j * demean_vec ids w ! j)"
    by (rule demean_vec_symmetric [OF lc lw'])
  also have "\<dots> = (\<Sum>j<N. A ! j ! c * demean_vec ids w ! j)"
    unfolding assms(2) by (intro sum.cong refl) (use assms(1) in \<open>simp add: col_nth is_mat_length\<close>)
  also have "\<dots> = mat_vec (transpose_m A) (demean_vec ids w) ! c"
    by (rule mat_vec_transpose_nth [OF assms(1,3) lw c, symmetric])
  finally show "mat_vec (transpose_m (demean ids A)) w ! c
      = mat_vec (transpose_m A) (demean_vec ids w) ! c" .
qed

lemma is_mat_dummies: "is_mat (length ids) (length (remdups ids)) (dummies ids)"
  by (intro is_matI) (simp_all add: dummies_def)

lemma dummies_nth:
  assumes "j < length ids" "p < length (remdups ids)"
  shows "dummies ids ! j ! p = (if ids ! j = remdups ids ! p then 1 else 0)"
  using assms by (simp add: dummies_def)

lemma dummies_transpose_zero:
  assumes "0 < length ids" "length v = length ids"
    and "mat_vec (transpose_m (dummies ids)) v = replicate (length (remdups ids)) 0"
    and "l \<in> set ids"
  shows "level_sum ids v l = 0"
proof -
  from assms(4) have "l \<in> set (remdups ids)" by simp
  then obtain p where p: "p < length (remdups ids)" "remdups ids ! p = l"
    unfolding in_set_conv_nth by blast
  have "mat_vec (transpose_m (dummies ids)) v ! p = (\<Sum>j<length ids. dummies ids ! j ! p * v ! j)"
    by (rule mat_vec_transpose_nth [OF is_mat_dummies assms(1,2) p(1)])
  also have "\<dots> = level_sum ids v l"
    unfolding level_sum_def by (intro sum.cong refl) (simp add: dummies_nth p)
  finally show ?thesis using assms(3) p(1) by simp
qed

lemma demean_dummies:
  assumes "length a = length (remdups ids)"
  shows "demean_vec ids (mat_vec (dummies ids) a) = replicate (length ids) 0"
proof (rule demean_vec_level_constant
    [where f = "\<lambda>l. \<Sum>p<length (remdups ids). (if l = remdups ids ! p then 1 else 0) * a ! p"])
  show "length (mat_vec (dummies ids) a) = length ids"
    by (simp add: length_mat_vec dummies_def)
  fix j assume j: "j < length ids"
  have "mat_vec (dummies ids) a ! j = (\<Sum>p<length (remdups ids). dummies ids ! j ! p * a ! p)"
    by (rule mat_vec_nth [OF is_mat_dummies assms j])
  also have "\<dots> = (\<Sum>p<length (remdups ids). (if ids ! j = remdups ids ! p then 1 else 0) * a ! p)"
    by (intro sum.cong refl) (simp add: dummies_nth j)
  finally show "mat_vec (dummies ids) a ! j
      = (\<Sum>p<length (remdups ids). (if ids ! j = remdups ids ! p then 1 else 0) * a ! p)" .
qed

lemma gmm_vector_normal:
  assumes X: "is_mat N K X" and Z: "is_mat N M Z" and W: "is_mat M M W"
    and N: "0 < N" and M: "0 < M" and v: "length v = N"
  shows "gmm_vector X Z W v = gmm_normal X Z W v"
proof -
  have Xt: "is_mat K N (transpose_m X)" by (rule is_mat_transpose_m [OF X N])
  have XZ: "is_mat K M (mat_mul (transpose_m X) Z)" by (rule is_mat_mat_mul [OF Xt Z N])
  have lz: "length (mat_vec (transpose_m Z) v) = M" by (rule length_mat_vec_transpose [OF Z N])
  have lw: "length (mat_vec W (mat_vec (transpose_m Z) v)) = M"
    using W by (simp add: length_mat_vec is_mat_length)
  have "gmm_vector X Z W v
      = mat_vec (mat_mul (transpose_m X) Z) (mat_vec W (mat_vec (transpose_m Z) v))"
    unfolding gmm_vector_def by (rule mat_vec_mat_mul [OF XZ W M lz])
  also have "\<dots> = gmm_normal X Z W v"
    unfolding gmm_normal_def by (rule mat_vec_mat_mul [OF Xt Z N lw])
  finally show ?thesis .
qed

lemma gmm_matrix_normal:
  assumes X: "is_mat N K X" and Z: "is_mat N M Z" and W: "is_mat M M W"
    and N: "0 < N" and M: "0 < M" and b: "length b = K"
  shows "mat_vec (gmm_matrix X Z W) b = gmm_normal X Z W (mat_vec X b)"
proof -
  have Xt: "is_mat K N (transpose_m X)" by (rule is_mat_transpose_m [OF X N])
  have Zt: "is_mat M N (transpose_m Z)" by (rule is_mat_transpose_m [OF Z N])
  have XZ: "is_mat K M (mat_mul (transpose_m X) Z)" by (rule is_mat_mat_mul [OF Xt Z N])
  have P: "is_mat K M (mat_mul (mat_mul (transpose_m X) Z) W)" by (rule is_mat_mat_mul [OF XZ W M])
  have ZX: "is_mat M K (mat_mul (transpose_m Z) X)" by (rule is_mat_mat_mul [OF Zt X N])
  have lx: "length (mat_vec X b) = N" using X by (simp add: length_mat_vec is_mat_length)
  have "mat_vec (gmm_matrix X Z W) b
      = mat_vec (mat_mul (mat_mul (transpose_m X) Z) W) (mat_vec (mat_mul (transpose_m Z) X) b)"
    unfolding gmm_matrix_def by (rule mat_vec_mat_mul [OF P ZX M b])
  also have "mat_vec (mat_mul (transpose_m Z) X) b = mat_vec (transpose_m Z) (mat_vec X b)"
    by (rule mat_vec_mat_mul [OF Zt X N b])
  also have "mat_vec (mat_mul (mat_mul (transpose_m X) Z) W) (mat_vec (transpose_m Z) (mat_vec X b))
      = gmm_vector X Z W (mat_vec X b)"
    by (simp add: gmm_vector_def)
  also have "\<dots> = gmm_normal X Z W (mat_vec X b)"
    by (rule gmm_vector_normal [OF X Z W N M lx])
  finally show ?thesis .
qed

lemma is_mat_gmm_matrix:
  assumes X: "is_mat N K X" and Z: "is_mat N M Z" and W: "is_mat M M W"
    and N: "0 < N" and M: "0 < M"
  shows "is_mat K K (gmm_matrix X Z W)"
proof -
  have Xt: "is_mat K N (transpose_m X)" by (rule is_mat_transpose_m [OF X N])
  have Zt: "is_mat M N (transpose_m Z)" by (rule is_mat_transpose_m [OF Z N])
  have XZ: "is_mat K M (mat_mul (transpose_m X) Z)" by (rule is_mat_mat_mul [OF Xt Z N])
  have P: "is_mat K M (mat_mul (mat_mul (transpose_m X) Z) W)" by (rule is_mat_mat_mul [OF XZ W M])
  have ZX: "is_mat M K (mat_mul (transpose_m Z) X)" by (rule is_mat_mat_mul [OF Zt X N])
  show ?thesis unfolding gmm_matrix_def by (rule is_mat_mat_mul [OF P ZX M])
qed

lemma length_gmm_normal:
  assumes "is_mat N K X" "0 < N"
  shows "length (gmm_normal X Z W e) = K"
  unfolding gmm_normal_def by (rule length_mat_vec_transpose [OF assms])

lemma gmm_normal_sub:
  assumes X: "is_mat N K X" and Z: "is_mat N M Z" and W: "is_mat M M W"
    and N: "0 < N" and v: "length v = N" and w: "length w = N"
  shows "gmm_normal X Z W (vec_sub v w) = vec_sub (gmm_normal X Z W v) (gmm_normal X Z W w)"
proof -
  have Xt: "is_mat K N (transpose_m X)" by (rule is_mat_transpose_m [OF X N])
  have Zt: "is_mat M N (transpose_m Z)" by (rule is_mat_transpose_m [OF Z N])
  have l1: "length (mat_vec (transpose_m Z) x) = M" for x
    by (rule length_mat_vec_transpose [OF Z N])
  have l2: "length (mat_vec W x) = M" for x using W by (simp add: length_mat_vec is_mat_length)
  have l3: "length (mat_vec Z x) = N" for x using Z by (simp add: length_mat_vec is_mat_length)
  show ?thesis
    unfolding gmm_normal_def
    by (simp add: mat_vec_sub [OF Zt v w] mat_vec_sub [OF W l1 l1] mat_vec_sub [OF Z l2 l2]
        mat_vec_sub [OF Xt l3 l3])
qed

text \<open>The estimate solves the normal equations, and it is their only solution.\<close>

lemma iv_gmm_normal_equation:
  assumes X: "is_mat N K X" and Z: "is_mat N M Z" and W: "is_mat M M W"
    and N: "0 < N" and M: "0 < M" and K: "0 < K" and Y: "length Y = N"
    and B: "is_mat K K (invert (gmm_matrix X Z W))"
    and inv: "is_inverse (gmm_matrix X Z W) (invert (gmm_matrix X Z W))"
  shows "gmm_normal X Z W (vec_sub Y (mat_vec X (iv_gmm invert X Z W Y))) = replicate K 0"
proof -
  let ?A = "gmm_matrix X Z W" and ?b = "gmm_vector X Z W Y"
  let ?est = "iv_gmm invert X Z W Y"
  have A: "is_mat K K ?A" by (rule is_mat_gmm_matrix [OF X Z W N M])
  have lb: "length ?b = K"
    by (simp add: gmm_vector_normal [OF X Z W N M Y] length_gmm_normal [OF X N])
  have le: "length ?est = K" using B by (simp add: iv_gmm_def length_mat_vec is_mat_length)
  have lx: "length (mat_vec X ?est) = N" using X by (simp add: length_mat_vec is_mat_length)
  have AB: "mat_mul ?A (invert ?A) = identity K"
    using inv A by (simp add: is_inverse_def is_mat_length)
  have "mat_vec ?A ?est = mat_vec (mat_mul ?A (invert ?A)) ?b"
    unfolding iv_gmm_def by (rule mat_vec_mat_mul [OF A B K lb, symmetric])
  also have "\<dots> = ?b" unfolding AB by (rule mat_vec_identity [OF lb])
  finally have "gmm_normal X Z W (mat_vec X ?est) = gmm_normal X Z W Y"
    by (simp add: gmm_matrix_normal [OF X Z W N M le] gmm_vector_normal [OF X Z W N M Y])
  then show ?thesis
    by (simp add: gmm_normal_sub [OF X Z W N Y lx] vec_sub_self_zero length_gmm_normal [OF X N])
qed

lemma iv_gmm_unique:
  assumes X: "is_mat N K X" and Z: "is_mat N M Z" and W: "is_mat M M W"
    and N: "0 < N" and M: "0 < M" and K: "0 < K" and Y: "length Y = N"
    and B: "is_mat K K (invert (gmm_matrix X Z W))"
    and inv: "is_inverse (gmm_matrix X Z W) (invert (gmm_matrix X Z W))"
    and b: "length b = K"
    and ne: "gmm_normal X Z W (vec_sub Y (mat_vec X b)) = replicate K 0"
  shows "iv_gmm invert X Z W Y = b"
proof -
  let ?A = "gmm_matrix X Z W"
  have A: "is_mat K K ?A" by (rule is_mat_gmm_matrix [OF X Z W N M])
  have lx: "length (mat_vec X b) = N" using X by (simp add: length_mat_vec is_mat_length)
  have BA: "mat_mul (invert ?A) ?A = identity K"
    using inv A by (simp add: is_inverse_def is_mat_length)
  have "vec_sub (gmm_normal X Z W Y) (gmm_normal X Z W (mat_vec X b))
      = replicate (length (gmm_normal X Z W Y)) 0"
    using ne by (simp add: gmm_normal_sub [OF X Z W N Y lx] length_gmm_normal [OF X N])
  then have "gmm_normal X Z W Y = gmm_normal X Z W (mat_vec X b)"
    by (subst (asm) vec_sub_eq_zero_iff) (simp_all add: length_gmm_normal [OF X N])
  then have "gmm_vector X Z W Y = mat_vec ?A b"
    by (simp add: gmm_matrix_normal [OF X Z W N M b] gmm_vector_normal [OF X Z W N M Y])
  then have "iv_gmm invert X Z W Y = mat_vec (invert ?A) (mat_vec ?A b)"
    by (simp add: iv_gmm_def)
  also have "\<dots> = mat_vec (mat_mul (invert ?A) ?A) b"
    by (rule mat_vec_mat_mul [OF B A K b, symmetric])
  also have "\<dots> = b" unfolding BA by (rule mat_vec_identity [OF b])
  finally show ?thesis .
qed

lemma transpose_augment_eq:
  assumes "is_mat N K A" "is_mat N L D" "0 < N" "length a = N" "length b = N"
    and "mat_vec (transpose_m (augment A D)) a = mat_vec (transpose_m (augment A D)) b"
  shows "mat_vec (transpose_m A) a = mat_vec (transpose_m A) b"
    and "mat_vec (transpose_m D) a = mat_vec (transpose_m D) b"
  using assms(6)
  unfolding mat_vec_transpose_augment [OF assms(1,2,3,4)]
    mat_vec_transpose_augment [OF assms(1,2,3,5)]
  by (simp_all add: append_eq_append_conv length_mat_vec_transpose [OF assms(1,3)])

lemma transpose_augment_zero:
  assumes "is_mat N K A" "is_mat N L D" "0 < N" "length a = N"
    and "mat_vec (transpose_m (augment A D)) a = replicate (K + L) 0"
  shows "mat_vec (transpose_m A) a = replicate K 0"
    and "mat_vec (transpose_m D) a = replicate L 0"
  using assms(5)
  unfolding mat_vec_transpose_augment [OF assms(1,2,3,4)] replicate_add
  by (simp_all add: append_eq_append_conv length_mat_vec_transpose [OF assms(1,3)])

lemma fwl_normal_equations:
  assumes X: "is_mat N K X" and Z: "is_mat N M Z" and ids: "length ids = N"
    and Y: "length Y = N" and N: "0 < N" and M: "0 < M"
    and beta: "length beta = K" and alpha: "length alpha = length (remdups ids)"
    and Wa: "is_mat (M + length (remdups ids)) (M + length (remdups ids)) Wa"
    and Wa_inv: "is_inverse (mat_mul (transpose_m (augment Z (dummies ids))) (augment Z (dummies ids))) Wa"
    and Wr: "is_mat M M Wr"
    and Wr_inv: "is_inverse (mat_mul (transpose_m (demean ids Z)) (demean ids Z)) Wr"
    and ne: "gmm_normal (augment X (dummies ids)) (augment Z (dummies ids)) Wa
               (vec_sub Y (mat_vec (augment X (dummies ids)) (beta @ alpha)))
             = replicate (K + length (remdups ids)) 0"
  shows "gmm_normal (demean ids X) (demean ids Z) Wr
           (vec_sub (demean_vec ids Y) (mat_vec (demean ids X) beta)) = replicate K 0"
proof -
  let ?L = "length (remdups ids)"
  let ?D = "dummies ids"
  let ?Xa = "augment X ?D" and ?Za = "augment Z ?D"
  let ?Xr = "demean ids X" and ?Zr = "demean ids Z" and ?Yr = "demean_vec ids Y"
  let ?e = "vec_sub Y (mat_vec ?Xa (beta @ alpha))"
  let ?u = "mat_vec Wa (mat_vec (transpose_m ?Za) ?e)"
  let ?u1 = "take M ?u" and ?u2 = "drop M ?u"
  let ?eh = "mat_vec ?Za ?u"
  have D: "is_mat N ?L ?D" using is_mat_dummies [of ids] ids by simp
  have Xa: "is_mat N (K + ?L) ?Xa" by (rule is_mat_augment [OF X D])
  have Za: "is_mat N (M + ?L) ?Za" by (rule is_mat_augment [OF Z D])
  have Xr: "is_mat N K ?Xr" by (rule is_mat_demean [OF X ids N])
  have Zr: "is_mat N M ?Zr" by (rule is_mat_demean [OF Z ids N])
  have Zat: "is_mat (M + ?L) N (transpose_m ?Za)" by (rule is_mat_transpose_m [OF Za N])
  have Zrt: "is_mat M N (transpose_m ?Zr)" by (rule is_mat_transpose_m [OF Zr N])
  have pos: "0 < M + ?L" using M by simp
  have le: "length ?e = N"
    using Y Xa by (simp add: length_vec_sub length_mat_vec is_mat_length)
  have lu: "length ?u = M + ?L" using Wa by (simp add: length_mat_vec is_mat_length)
  have lu1: "length ?u1 = M" and lu2: "length ?u2 = ?L" using lu by simp_all
  have leh: "length ?eh = N" using Za by (simp add: length_mat_vec is_mat_length)
  have lide: "length ?e = length ids" and lideh: "length ?eh = length ids"
    using le leh ids by simp_all

  txt \<open>The fitted residual is orthogonal to the regressors.\<close>
  have ne': "mat_vec (transpose_m ?Xa) ?eh = replicate (K + ?L) 0"
    using ne by (simp add: gmm_normal_def)
  have Xeh: "mat_vec (transpose_m X) ?eh = replicate K 0"
    by (rule transpose_augment_zero(1) [OF X D N leh ne'])
  have Deh: "mat_vec (transpose_m ?D) ?eh = replicate ?L 0"
    by (rule transpose_augment_zero(2) [OF X D N leh ne'])

  txt \<open>The instruments do not see the difference between the residual and its fit.\<close>
  have ZZW: "mat_mul (mat_mul (transpose_m ?Za) ?Za) Wa = identity (M + ?L)"
    using Wa_inv is_mat_mat_mul [OF Zat Za N] by (simp add: is_inverse_def is_mat_length)
  have lze: "length (mat_vec (transpose_m ?Za) ?e) = M + ?L"
    by (rule length_mat_vec_transpose [OF Za N])
  have "mat_vec (transpose_m ?Za) ?eh = mat_vec (mat_mul (transpose_m ?Za) ?Za) ?u"
    by (rule mat_vec_mat_mul [OF Zat Za N lu, symmetric])
  also have "\<dots> = mat_vec (mat_mul (mat_mul (transpose_m ?Za) ?Za) Wa) (mat_vec (transpose_m ?Za) ?e)"
    by (rule mat_vec_mat_mul [OF is_mat_mat_mul [OF Zat Za N] Wa pos lze, symmetric])
  also have "\<dots> = mat_vec (transpose_m ?Za) ?e"
    unfolding ZZW by (rule mat_vec_identity [OF lze])
  finally have st: "mat_vec (transpose_m ?Za) ?eh = mat_vec (transpose_m ?Za) ?e" .
  have Zeh: "mat_vec (transpose_m Z) ?eh = mat_vec (transpose_m Z) ?e"
    by (rule transpose_augment_eq(1) [OF Z D N leh le st])
  have "mat_vec (transpose_m ?D) ?eh = mat_vec (transpose_m ?D) ?e"
    by (rule transpose_augment_eq(2) [OF Z D N leh le st])
  then have De: "mat_vec (transpose_m ?D) ?e = replicate ?L 0" using Deh by simp

  txt \<open>Both have zero sums within every level, so de-meaning leaves them alone.\<close>
  have N': "0 < length ids" using N ids by simp
  have fe: "demean_vec ids ?e = ?e"
    by (rule demean_vec_fixed [OF lide]) (rule dummies_transpose_zero [OF N' lide De])
  have feh: "demean_vec ids ?eh = ?eh"
    by (rule demean_vec_fixed [OF lideh]) (rule dummies_transpose_zero [OF N' lideh Deh])

  txt \<open>De-meaning removes the fixed effects.\<close>
  have lxb: "length (mat_vec X beta) = length ids" and lda: "length (mat_vec ?D alpha) = length ids"
    and lzu: "length (mat_vec Z ?u1) = length ids" and ldu: "length (mat_vec ?D ?u2) = length ids"
    using X Z D ids by (simp_all add: length_mat_vec is_mat_length)
  have lxr: "length (mat_vec ?Xr beta) = N" and lzr: "length (mat_vec ?Zr ?u1) = N"
    using Xr Zr by (simp_all add: length_mat_vec is_mat_length)
  have Yi: "length Y = length ids" using Y ids by simp
  have "demean_vec ids ?e
      = vec_sub ?Yr (demean_vec ids (vec_add (mat_vec X beta) (mat_vec ?D alpha)))"
    using lxb lda
    by (simp add: mat_vec_augment [OF X D beta alpha] demean_vec_sub [OF Yi] length_vec_add)
  also have "\<dots> = vec_sub ?Yr (vec_add (mat_vec ?Xr beta) (replicate N 0))"
    using ids
    by (simp add: demean_vec_add [OF lxb lda] demean_mat_vec [OF X ids N beta]
        demean_dummies [OF alpha])
  also have "\<dots> = vec_sub ?Yr (mat_vec ?Xr beta)"
    by (simp add: vec_add_zeros [OF lxr])
  finally have e: "?e = vec_sub ?Yr (mat_vec ?Xr beta)" using fe by simp
  have "?eh = vec_add (mat_vec Z ?u1) (mat_vec ?D ?u2)"
    using mat_vec_augment [OF Z D lu1 lu2] by simp
  then have "demean_vec ids ?eh = vec_add (mat_vec ?Zr ?u1) (replicate N 0)"
    using ids
    by (simp add: demean_vec_add [OF lzu ldu] demean_mat_vec [OF Z ids N lu1]
        demean_dummies [OF lu2])
  then have eh: "?eh = mat_vec ?Zr ?u1"
    using feh by (simp add: vec_add_zeros [OF lzr])

  txt \<open>The same orthogonality holds for the de-meaned matrices.\<close>
  have Zre: "mat_vec (transpose_m ?Zr) ?e = mat_vec (transpose_m Z) ?e"
    by (simp add: demean_transpose_mat_vec [OF Z ids N le] fe)
  have Zreh: "mat_vec (transpose_m ?Zr) ?eh = mat_vec (transpose_m Z) ?e"
    by (simp add: demean_transpose_mat_vec [OF Z ids N leh] feh Zeh)
  have Xreh: "mat_vec (transpose_m ?Xr) ?eh = replicate K 0"
    by (simp add: demean_transpose_mat_vec [OF X ids N leh] feh Xeh)
  have WZZ: "mat_mul Wr (mat_mul (transpose_m ?Zr) ?Zr) = identity M"
    using Wr_inv is_mat_mat_mul [OF Zrt Zr N] by (simp add: is_inverse_def is_mat_length)
  have "mat_vec Wr (mat_vec (transpose_m ?Zr) ?e) = mat_vec Wr (mat_vec (transpose_m ?Zr) ?eh)"
    by (simp add: Zre Zreh)
  also have "\<dots> = mat_vec Wr (mat_vec (transpose_m ?Zr) (mat_vec ?Zr ?u1))"
    using eh by simp
  also have "\<dots> = mat_vec Wr (mat_vec (mat_mul (transpose_m ?Zr) ?Zr) ?u1)"
    by (simp add: mat_vec_mat_mul [OF Zrt Zr N lu1])
  also have "\<dots> = mat_vec (mat_mul Wr (mat_mul (transpose_m ?Zr) ?Zr)) ?u1"
    by (rule mat_vec_mat_mul [OF Wr is_mat_mat_mul [OF Zrt Zr N] M lu1, symmetric])
  also have "\<dots> = ?u1" unfolding WZZ by (rule mat_vec_identity [OF lu1])
  finally have u1: "mat_vec Wr (mat_vec (transpose_m ?Zr) ?e) = ?u1" .
  have "gmm_normal ?Xr ?Zr Wr ?e = mat_vec (transpose_m ?Xr) (mat_vec ?Zr ?u1)"
    by (simp add: gmm_normal_def u1)
  also have "\<dots> = replicate K 0" using eh Xreh by simp
  finally show ?thesis using e by simp
qed

text \<open>
  Claim C10, as amended. Fixed-effect absorption with the 2SLS weighting matrices: for every
  design matrix \<open>X\<close>, instrument matrix \<open>Z\<close> and outcome \<open>Y\<close>, when the matrices to be
  inverted are invertible, the closed-form IV-GMM step on the matrices de-meaned within each
  level of a fixed effect, with the weighting matrix \<open>(Z'Z)\<^sup>-\<^sup>1\<close> of the de-meaned instruments,
  gives exactly the estimates of the coefficients of \<open>X\<close> that the step gives on the original
  matrices augmented with one dummy column per level, with the weighting matrix \<open>(Z'Z)\<^sup>-\<^sup>1\<close>
  of the augmented instruments.
\<close>

theorem fwl_two_sls:
  assumes X: "is_mat N K X" and Z: "is_mat N M Z" and ids: "length ids = N"
    and Y: "length Y = N" and N: "0 < N" and M: "0 < M" and K: "0 < K"
    and Wr: "inverts invert M (mat_mul (transpose_m (demean ids Z)) (demean ids Z))"
    and Wa: "inverts invert (M + length (remdups ids))
               (mat_mul (transpose_m (augment Z (dummies ids))) (augment Z (dummies ids)))"
    and Br: "inverts invert K
               (gmm_matrix (demean ids X) (demean ids Z) (two_sls_W invert (demean ids Z)))"
    and Ba: "inverts invert (K + length (remdups ids))
               (gmm_matrix (augment X (dummies ids)) (augment Z (dummies ids))
                  (two_sls_W invert (augment Z (dummies ids))))"
  shows "take K (iv_gmm invert (augment X (dummies ids)) (augment Z (dummies ids))
                   (two_sls_W invert (augment Z (dummies ids))) Y)
       = iv_gmm invert (demean ids X) (demean ids Z) (two_sls_W invert (demean ids Z))
           (demean_vec ids Y)"
proof -
  let ?L = "length (remdups ids)"
  let ?D = "dummies ids"
  let ?Xa = "augment X ?D" and ?Za = "augment Z ?D"
  let ?Xr = "demean ids X" and ?Zr = "demean ids Z" and ?Yr = "demean_vec ids Y"
  let ?Wa = "two_sls_W invert ?Za" and ?Wr = "two_sls_W invert ?Zr"
  let ?est = "iv_gmm invert ?Xa ?Za ?Wa Y"
  have D: "is_mat N ?L ?D" using is_mat_dummies [of ids] ids by simp
  have Xa: "is_mat N (K + ?L) ?Xa" by (rule is_mat_augment [OF X D])
  have Za: "is_mat N (M + ?L) ?Za" by (rule is_mat_augment [OF Z D])
  have Xr: "is_mat N K ?Xr" by (rule is_mat_demean [OF X ids N])
  have Zr: "is_mat N M ?Zr" by (rule is_mat_demean [OF Z ids N])
  have Wa1: "is_mat (M + ?L) (M + ?L) ?Wa" and Wa2: "is_inverse (mat_mul (transpose_m ?Za) ?Za) ?Wa"
    using Wa by (simp_all add: inverts_def two_sls_W_def)
  have Wr1: "is_mat M M ?Wr" and Wr2: "is_inverse (mat_mul (transpose_m ?Zr) ?Zr) ?Wr"
    using Wr by (simp_all add: inverts_def two_sls_W_def)
  have Ba1: "is_mat (K + ?L) (K + ?L) (invert (gmm_matrix ?Xa ?Za ?Wa))"
    and Ba2: "is_inverse (gmm_matrix ?Xa ?Za ?Wa) (invert (gmm_matrix ?Xa ?Za ?Wa))"
    using Ba by (simp_all add: inverts_def)
  have Br1: "is_mat K K (invert (gmm_matrix ?Xr ?Zr ?Wr))"
    and Br2: "is_inverse (gmm_matrix ?Xr ?Zr ?Wr) (invert (gmm_matrix ?Xr ?Zr ?Wr))"
    using Br by (simp_all add: inverts_def)
  have pos: "0 < M + ?L" "0 < K + ?L" using M K by simp_all
  have lest: "length ?est = K + ?L"
    using Ba1 by (simp add: iv_gmm_def length_mat_vec is_mat_length)
  then have lb: "length (take K ?est) = K" and la: "length (drop K ?est) = ?L" by simp_all
  have Yr: "length ?Yr = N" using Y ids by (simp add: length_demean_vec)
  have "gmm_normal ?Xa ?Za ?Wa (vec_sub Y (mat_vec ?Xa ?est)) = replicate (K + ?L) 0"
    by (rule iv_gmm_normal_equation [where invert = invert, OF Xa Za Wa1 N pos(1) pos(2) Y Ba1 Ba2])
  then have "gmm_normal ?Xa ?Za ?Wa (vec_sub Y (mat_vec ?Xa (take K ?est @ drop K ?est)))
      = replicate (K + ?L) 0"
    by simp
  then have "gmm_normal ?Xr ?Zr ?Wr (vec_sub ?Yr (mat_vec ?Xr (take K ?est))) = replicate K 0"
    by (rule fwl_normal_equations [OF X Z ids Y N M lb la Wa1 Wa2 Wr1 Wr2])
  then have "iv_gmm invert ?Xr ?Zr ?Wr ?Yr = take K ?est"
    by (rule iv_gmm_unique [where invert = invert, OF Xr Zr Wr1 N M K Yr Br1 Br2 lb])
  then show ?thesis by simp
qed

lemmas fe_eval = mat_mul_def mat_vec_def transpose_m_def ncols_def col_def dot_def

lemma survey_demeaned:
  "demean survey_ids survey_X = [[- 1/4], [- 1/4], [- 1/4], [3/4]]"
  "demean survey_ids survey_Z = [[- 1/4, - 3/4], [- 1/4, 1/4], [3/4, 1/4], [- 1/4, 1/4]]"
  "demean_vec survey_ids survey_Y = [- 3/4, 1/4, 1/4, 1/4]"
  by (simp_all add: survey_X_def survey_Z_def survey_Y_def survey_ids_def demean_def
      demean_vec_def level_mean_def level_values_def ncols_def col_def)

lemma survey_augmented:
  "augment survey_X (dummies survey_ids) = [[0, 1], [0, 1], [0, 1], [1, 1]]"
  "augment survey_Z (dummies survey_ids) = [[0, 0, 1], [0, 1, 1], [1, 1, 1], [0, 1, 1]]"
  by (simp_all add: survey_X_def survey_Z_def survey_ids_def augment_def dummies_def)

lemma survey_two_sls_W:
  "two_sls_W inverse_upto_3 [[- 1/4, - 3/4], [- 1/4, 1/4], [3/4, 1/4], [- 1/4, 1/4]]
   = [[3/2, - 1/2], [- 1/2, 3/2]]"
  "two_sls_W inverse_upto_3 [[0, 0, 1], [0, 1, 1], [1, 1, 1], [0, 1, 1]]
   = [[3/2, - 1/2, 0], [- 1/2, 3/2, - 1], [0, - 1, 1]]"
  by (simp_all add: two_sls_W_def inverse_upto_3_def inverse_2x2_def inverse_3x3_def Let_def fe_eval)

lemma survey_gmm_matrix:
  "gmm_matrix [[- 1/4], [- 1/4], [- 1/4], [3/4]]
     [[- 1/4, - 3/4], [- 1/4, 1/4], [3/4, 1/4], [- 1/4, 1/4]] [[3/2, - 1/2], [- 1/2, 3/2]]
   = [[1/4]]"
  "gmm_matrix [[0, 1], [0, 1], [0, 1], [1, 1]] [[0, 0, 1], [0, 1, 1], [1, 1, 1], [0, 1, 1]]
     [[3/2, - 1/2, 0], [- 1/2, 3/2, - 1], [0, - 1, 1]]
   = [[1/2, 1], [1, 4]]"
  by (simp_all add: gmm_matrix_def fe_eval)

lemma survey_inverts:
  "inverts inverse_upto_3 2 (mat_mul (transpose_m (demean survey_ids survey_Z)) (demean survey_ids survey_Z))"
  "inverts inverse_upto_3 (2 + length (remdups survey_ids))
     (mat_mul (transpose_m (augment survey_Z (dummies survey_ids))) (augment survey_Z (dummies survey_ids)))"
  "inverts inverse_upto_3 1
     (gmm_matrix (demean survey_ids survey_X) (demean survey_ids survey_Z)
        (two_sls_W inverse_upto_3 (demean survey_ids survey_Z)))"
  "inverts inverse_upto_3 (1 + length (remdups survey_ids))
     (gmm_matrix (augment survey_X (dummies survey_ids)) (augment survey_Z (dummies survey_ids))
        (two_sls_W inverse_upto_3 (augment survey_Z (dummies survey_ids))))"
proof -
  show "inverts inverse_upto_3 2 (mat_mul (transpose_m (demean survey_ids survey_Z)) (demean survey_ids survey_Z))"
    unfolding survey_demeaned
    by (simp add: inverts_def is_mat_def is_inverse_def identity_def inverse_upto_3_def
        inverse_2x2_def Let_def fe_eval)
  show "inverts inverse_upto_3 (2 + length (remdups survey_ids))
     (mat_mul (transpose_m (augment survey_Z (dummies survey_ids))) (augment survey_Z (dummies survey_ids)))"
    unfolding survey_augmented
    by (simp add: inverts_def is_mat_def is_inverse_def identity_def inverse_upto_3_def
        inverse_3x3_def Let_def fe_eval survey_ids_def)
  show "inverts inverse_upto_3 1
     (gmm_matrix (demean survey_ids survey_X) (demean survey_ids survey_Z)
        (two_sls_W inverse_upto_3 (demean survey_ids survey_Z)))"
    unfolding survey_demeaned survey_two_sls_W survey_gmm_matrix
    by (simp add: inverts_def is_mat_def is_inverse_def identity_def inverse_upto_3_def
        inverse_1x1_def fe_eval)
  show "inverts inverse_upto_3 (1 + length (remdups survey_ids))
     (gmm_matrix (augment survey_X (dummies survey_ids)) (augment survey_Z (dummies survey_ids))
        (two_sls_W inverse_upto_3 (augment survey_Z (dummies survey_ids))))"
    unfolding survey_augmented survey_two_sls_W survey_gmm_matrix
    by (simp add: inverts_def is_mat_def is_inverse_def identity_def inverse_upto_3_def
        inverse_2x2_def Let_def fe_eval survey_ids_def)
qed

lemma survey_two_sls_estimate:
  "iv_gmm inverse_upto_3 (demean survey_ids survey_X) (demean survey_ids survey_Z)
     (two_sls_W inverse_upto_3 (demean survey_ids survey_Z)) (demean_vec survey_ids survey_Y) = [1]"
  unfolding survey_demeaned survey_two_sls_W iv_gmm_def survey_gmm_matrix
  by (simp add: gmm_vector_def inverse_upto_3_def inverse_1x1_def fe_eval)

theorem fwl_two_sls_witness:
  "take 1 (iv_gmm inverse_upto_3 (augment survey_X (dummies survey_ids))
             (augment survey_Z (dummies survey_ids))
             (two_sls_W inverse_upto_3 (augment survey_Z (dummies survey_ids))) survey_Y)
   = [1]"
proof -
  have h: "is_mat 4 1 survey_X" "is_mat 4 2 survey_Z" "length survey_ids = 4"
    "length survey_Y = 4" "0 < (4::nat)" "0 < (2::nat)" "0 < (1::nat)"
    by (simp_all add: is_mat_def survey_X_def survey_Z_def survey_Y_def survey_ids_def)
  show ?thesis
    using fwl_two_sls [where invert = inverse_upto_3, OF h survey_inverts]
    by (simp only: survey_two_sls_estimate)
qed

text \<open>
  With the identity as weighting matrix of both systems the estimates differ: on the sample
  data the de-meaned matrices give the coefficient \<open>1\<close>, the matrices with the dummy column
  give \<open>2/3\<close>.
\<close>

theorem fwl_identity_weights_counterexample:
  "iv_gmm inverse_upto_3 (demean survey_ids survey_X) (demean survey_ids survey_Z)
     [[1, 0], [0, 1]] (demean_vec survey_ids survey_Y) = [1]
   \<and> iv_gmm inverse_upto_3 (augment survey_X (dummies survey_ids))
       (augment survey_Z (dummies survey_ids)) [[1, 0, 0], [0, 1, 0], [0, 0, 1]] survey_Y
     = [2/3, 2/3]
   \<and> take 1 (iv_gmm inverse_upto_3 (augment survey_X (dummies survey_ids))
               (augment survey_Z (dummies survey_ids)) [[1, 0, 0], [0, 1, 0], [0, 0, 1]] survey_Y)
     \<noteq> iv_gmm inverse_upto_3 (demean survey_ids survey_X) (demean survey_ids survey_Z)
         [[1, 0], [0, 1]] (demean_vec survey_ids survey_Y)"
  unfolding survey_demeaned survey_augmented
  by (simp add: iv_gmm_def gmm_matrix_def gmm_vector_def inverse_upto_3_def inverse_1x1_def
      inverse_2x2_def Let_def fe_eval survey_Y_def)

section \<open>The markup term and the iteration over prices\<close>

lemma agent_sum:
  assumes "length ws = I" "length S = I" "length U = I"
  shows "sum_list (map f (zip ws (zip S U))) = (\<Sum>i<I. f (ws ! i, S ! i, U ! i))"
proof -
  have "sum_list (map f (zip ws (zip S U)))
      = (\<Sum>i = 0..<length (map f (zip ws (zip S U))). map f (zip ws (zip S U)) ! i)"
    by (rule sum_list_sum_nth)
  also have "\<dots> = (\<Sum>i = 0..<I. f (ws ! i, S ! i, U ! i))"
    using assms by (intro sum.cong) auto
  finally show ?thesis by (simp add: atLeast0LessThan)
qed

lemma aggregate_shares_nth:
  assumes "price_dimensions pm p I J" "j < J"
  shows "aggregate_shares pm p ! j
       = (\<Sum>i<I. agent_weights pm ! i * choice_probabilities pm p ! i ! j)"
  using assms unfolding price_dimensions_def aggregate_shares_def agent_terms_def
  by (simp add: agent_sum [where I = I])

lemma Lambda_nth:
  assumes "price_dimensions pm p I J" "j < J"
  shows "Lambda pm p ! j
       = (\<Sum>i<I. agent_weights pm ! i * choice_probabilities pm p ! i ! j
                   * utility_derivatives pm p ! i ! j)"
  using assms unfolding price_dimensions_def Lambda_def agent_terms_def
  by (simp add: agent_sum [where I = I])

lemma Gamma_nth:
  assumes "price_dimensions pm p I J" "j < J" "k < J"
  shows "Gamma pm p ! j ! k
       = (\<Sum>i<I. agent_weights pm ! i * choice_probabilities pm p ! i ! j
                   * choice_probabilities pm p ! i ! k * utility_derivatives pm p ! i ! k)"
  using assms unfolding price_dimensions_def Gamma_def agent_terms_def
  by (simp add: agent_sum [where I = I])

lemma Gamma_printed_nth:
  assumes "price_dimensions pm p I J" "j < J" "k < J"
  shows "Gamma_printed pm p ! j ! k
       = (\<Sum>i<I. agent_weights pm ! i * choice_probabilities pm p ! i ! j
                   * choice_probabilities pm p ! i ! k * utility_derivatives pm p ! i ! j)"
  using assms unfolding price_dimensions_def Gamma_printed_def agent_terms_def
  by (simp add: agent_sum [where I = I])

text \<open>
  The printed matrix is the transpose of \<open>\<Gamma>\<close>; the two coincide when, for every agent, the
  utilities of all products respond alike to their prices.
\<close>

lemma Gamma_printed_transpose:
  assumes "price_dimensions pm p I J" "j < J" "k < J"
  shows "Gamma_printed pm p ! j ! k = Gamma pm p ! k ! j"
  unfolding Gamma_printed_nth [OF assms] Gamma_nth [OF assms(1,3,2)]
  by (intro sum.cong refl) simp

lemma Gamma_printed_eq:
  assumes "price_dimensions pm p I J" "j < J" "k < J"
    and "\<And>i. i < I \<Longrightarrow> utility_derivatives pm p ! i ! j = utility_derivatives pm p ! i ! k"
  shows "Gamma_printed pm p ! j ! k = Gamma pm p ! j ! k"
  unfolding Gamma_printed_nth [OF assms(1-3)] Gamma_nth [OF assms(1-3)]
  by (intro sum.cong refl) (simp add: assms(4))

lemma is_mat_Gamma: "is_mat (length (costs pm)) (length (costs pm)) (Gamma pm p)"
  by (rule is_matI) (simp_all add: Gamma_def)

lemma is_mat_hadamard:
  assumes "is_mat r c A" "is_mat r c B"
  shows "is_mat r c (hadamard A B)"
  by (rule is_matI) (use assms in \<open>simp_all add: hadamard_def is_mat_length is_mat_row\<close>)

lemma hadamard_nth:
  assumes "is_mat r c A" "is_mat r c B" "i < r" "j < c"
  shows "hadamard A B ! i ! j = A ! i ! j * B ! i ! j"
  using assms by (simp add: hadamard_def is_mat_length is_mat_row)

lemma length_Lambda: "length (Lambda pm p) = length (costs pm)"
  by (simp add: Lambda_def)

lemma length_aggregate_shares: "length (aggregate_shares pm p) = length (costs pm)"
  by (simp add: aggregate_shares_def)

lemma length_diagonal_solve: "length (diagonal_solve d x) = min (length d) (length x)"
  by (simp add: diagonal_solve_def)

lemma diagonal_solve_nth:
  "j < length d \<Longrightarrow> j < length x \<Longrightarrow> diagonal_solve d x ! j = x ! j / d ! j"
  by (simp add: diagonal_solve_def)

lemma length_zeta:
  assumes "price_dimensions pm p I J" "0 < J"
  shows "length (zeta pm p) = J"
proof -
  have O: "is_mat J J (hadamard (ownership pm) (Gamma pm p))"
    using assms is_mat_Gamma [of pm p] by (intro is_mat_hadamard) (simp_all add: price_dimensions_def)
  show ?thesis
    using assms length_mat_vec_transpose [OF O assms(2)]
    by (simp add: zeta_def vec_sub_def diagonal_solve_def length_Lambda length_aggregate_shares
        price_dimensions_def)
qed

lemma zeta_nth:
  assumes "price_dimensions pm p I J" "j < J"
  shows "zeta pm p ! j
       = (\<Sum>k<J. ownership pm ! k ! j * Gamma pm p ! k ! j * (p ! k - costs pm ! k))
           / Lambda pm p ! j
         - aggregate_shares pm p ! j / Lambda pm p ! j"
proof -
  have J: "0 < J" "length (costs pm) = J" "length p = J" "is_mat J J (ownership pm)"
    using assms by (simp_all add: price_dimensions_def)
  have G: "is_mat J J (Gamma pm p)" using is_mat_Gamma [of pm p] J(2) by simp
  have O: "is_mat J J (hadamard (ownership pm) (Gamma pm p))"
    by (rule is_mat_hadamard [OF J(4) G])
  have l: "length (vec_sub p (costs pm)) = J" using J by (simp add: vec_sub_def)
  have "mat_vec (transpose_m (hadamard (ownership pm) (Gamma pm p))) (vec_sub p (costs pm)) ! j
      = (\<Sum>k<J. hadamard (ownership pm) (Gamma pm p) ! k ! j * vec_sub p (costs pm) ! k)"
    by (rule mat_vec_transpose_nth [OF O J(1) l assms(2)])
  also have "\<dots> = (\<Sum>k<J. ownership pm ! k ! j * Gamma pm p ! k ! j * (p ! k - costs pm ! k))"
    using J assms(2) by (intro sum.cong refl) (simp add: hadamard_nth [OF J(4) G] vec_sub_def)
  finally have m: "mat_vec (transpose_m (hadamard (ownership pm) (Gamma pm p))) (vec_sub p (costs pm)) ! j
      = (\<Sum>k<J. ownership pm ! k ! j * Gamma pm p ! k ! j * (p ! k - costs pm ! k))" .
  have lm: "length (mat_vec (transpose_m (hadamard (ownership pm) (Gamma pm p))) (vec_sub p (costs pm))) = J"
    by (rule length_mat_vec_transpose [OF O J(1)])
  have "zeta pm p ! j
      = diagonal_solve (Lambda pm p)
          (mat_vec (transpose_m (hadamard (ownership pm) (Gamma pm p))) (vec_sub p (costs pm))) ! j
        - diagonal_solve (Lambda pm p) (aggregate_shares pm p) ! j"
    unfolding zeta_def using assms(2) J(2) lm
    by (intro vec_sub_nth) (simp_all add: length_diagonal_solve length_Lambda length_aggregate_shares)
  then show ?thesis
    using assms(2) J(2) lm
    by (simp add: diagonal_solve_nth length_Lambda length_aggregate_shares m)
qed

lemma price_step_nth:
  assumes "price_dimensions pm p I J" "j < J"
  shows "price_step pm p ! j = costs pm ! j + zeta pm p ! j"
proof -
  have "0 < J" using assms(2) by simp
  from length_zeta [OF assms(1) this] assms show ?thesis
    by (simp add: price_step_def vec_add_def price_dimensions_def)
qed

lemma foc_residual_nth:
  assumes "price_dimensions pm p I J" "j < J"
  shows "foc_residual pm p ! j = Lambda pm p ! j * (p ! j - costs pm ! j - zeta pm p ! j)"
proof -
  have "0 < J" using assms(2) by simp
  from length_zeta [OF assms(1) this] assms show ?thesis
    by (simp add: foc_residual_def vec_sub_def length_Lambda price_dimensions_def)
qed

lemma foc_residual_first_order_condition:
  assumes "price_dimensions pm p I J" "j < J" "Lambda pm p ! j \<noteq> 0"
  shows "foc_residual pm p ! j
       = aggregate_shares pm p ! j + Lambda pm p ! j * (p ! j - costs pm ! j)
         - (\<Sum>k<J. ownership pm ! k ! j * Gamma pm p ! k ! j * (p ! k - costs pm ! k))"
  unfolding foc_residual_nth [OF assms(1,2)] zeta_nth [OF assms(1,2)]
  using assms(3) by (simp add: field_simps)

text \<open>The loop, iteration by iteration.\<close>

lemma residual_norm_shift:
  "residual_norm nrm pm (price_step pm p) n = residual_norm nrm pm p (Suc n)"
  unfolding residual_norm_def funpow_shift ..

lemma residual_norm_0: "residual_norm nrm pm p 0 = nrm (foc_residual pm p)"
  by (simp add: residual_norm_def)

lemma converges_at_0_iff: "converges_at nrm tol pm p 0 \<longleftrightarrow> nrm (foc_residual pm p) < tol"
  by (simp add: converges_at_def residual_norm_0)

lemma converges_at_Suc_iff:
  "converges_at nrm tol pm p (Suc n) \<longleftrightarrow>
     \<not> nrm (foc_residual pm p) < tol \<and> converges_at nrm tol pm (price_step pm p) n"
  unfolding converges_at_def residual_norm_shift all_less_Suc_shift residual_norm_0 by blast

lemma price_solver_converged:
  "price_solver nrm tol k pm p = Inr q \<longleftrightarrow>
     (\<exists>n<k. q = (price_step pm ^^ Suc n) p \<and> converges_at nrm tol pm p n)"
proof (induction k arbitrary: p)
  case 0
  show ?case by simp
next
  case (Suc k)
  show ?case
  proof (cases "nrm (foc_residual pm p) < tol")
    case True
    have "(\<exists>n<Suc k. q = (price_step pm ^^ Suc n) p \<and> converges_at nrm tol pm p n)
        \<longleftrightarrow> q = price_step pm p"
      unfolding ex_less_Suc_shift converges_at_Suc_iff converges_at_0_iff using True by auto
    then show ?thesis using True by auto
  next
    case False
    have "(\<exists>n<Suc k. q = (price_step pm ^^ Suc n) p \<and> converges_at nrm tol pm p n)
        \<longleftrightarrow> (\<exists>n<k. q = (price_step pm ^^ Suc n) (price_step pm p)
                    \<and> converges_at nrm tol pm (price_step pm p) n)"
      unfolding ex_less_Suc_shift converges_at_Suc_iff converges_at_0_iff funpow_shift
      using False by auto
    then show ?thesis using False Suc.IH [of "price_step pm p"] by simp
  qed
qed

lemma price_solver_failed:
  "price_solver nrm tol k pm p = Inl e \<longleftrightarrow>
     e = NonConvergence \<and> (\<forall>n<k. \<not> residual_norm nrm pm p n < tol)"
proof (induction k arbitrary: p)
  case 0
  show ?case by auto
next
  case (Suc k)
  show ?case
  proof (cases "nrm (foc_residual pm p) < tol")
    case True
    then show ?thesis unfolding all_less_Suc_shift residual_norm_0 by simp
  next
    case False
    then show ?thesis
      unfolding all_less_Suc_shift residual_norm_0 residual_norm_shift [symmetric]
      using Suc.IH [of "price_step pm p"] by simp
  qed
qed

text \<open>
  Claim C3, with the matrix \<open>\<Gamma>\<close> in the orientation the transpose in \<open>\<zeta>\<close> needs and with the
  exits of the solver made explicit. In a market with \<open>J\<close> products and \<open>I\<close> agents,
  \<open>\<Lambda>\<^sub>j\<^sub>j = \<Sum>\<^sub>i w\<^sub>i s\<^sub>j\<^sub>i \<partial>U\<^sub>j\<^sub>i/\<partial>p\<^sub>j\<close> and \<open>\<Gamma>\<^sub>j\<^sub>k = \<Sum>\<^sub>i w\<^sub>i s\<^sub>j\<^sub>i s\<^sub>k\<^sub>i \<partial>U\<^sub>k\<^sub>i/\<partial>p\<^sub>k\<close>; product \<open>j\<close> of
  \<open>\<zeta>(p) = \<Lambda>\<^sup>-\<^sup>1 (O \<odot> \<Gamma>)' (p - c) - \<Lambda>\<^sup>-\<^sup>1 s\<close> is
  \<open>(\<Sum>\<^sub>k O\<^sub>k\<^sub>j \<Gamma>\<^sub>k\<^sub>j (p\<^sub>k - c\<^sub>k)) / \<Lambda>\<^sub>j\<^sub>j - s\<^sub>j / \<Lambda>\<^sub>j\<^sub>j\<close>; one iteration of the Price Solver updates
  \<open>p\<^sub>j\<close> to \<open>c\<^sub>j + \<zeta>\<^sub>j(p)\<close>; and product \<open>j\<close> of \<open>\<Lambda>(p) (p - c - \<zeta>(p))\<close> is
  \<open>\<Lambda>\<^sub>j\<^sub>j (p\<^sub>j - c\<^sub>j - \<zeta>\<^sub>j(p))\<close>. The solver returns \<open>q\<close> exactly when \<open>q\<close> is the update of the
  first iterate at which the norm of \<open>\<Lambda>(p) (p - c - \<zeta>(p))\<close> is below the tolerance and that
  iterate is among the first \<open>max_iterations\<close> ones; it stops with \<open>NonConvergence\<close>, and with
  no other error, exactly when at none of the first \<open>max_iterations\<close> iterates that norm is
  below the tolerance.
\<close>

theorem zeta_markup_iteration:
  "(price_dimensions pm p I J \<and> j < J \<longrightarrow>
      Lambda pm p ! j
      = (\<Sum>i<I. agent_weights pm ! i * choice_probabilities pm p ! i ! j
                  * utility_derivatives pm p ! i ! j))
   \<and> (price_dimensions pm p I J \<and> j < J \<and> k < J \<longrightarrow>
      Gamma pm p ! j ! k
      = (\<Sum>i<I. agent_weights pm ! i * choice_probabilities pm p ! i ! j
                  * choice_probabilities pm p ! i ! k * utility_derivatives pm p ! i ! k))
   \<and> (price_dimensions pm p I J \<and> j < J \<longrightarrow>
      aggregate_shares pm p ! j
      = (\<Sum>i<I. agent_weights pm ! i * choice_probabilities pm p ! i ! j))
   \<and> (price_dimensions pm p I J \<and> j < J \<longrightarrow>
      zeta pm p ! j
      = (\<Sum>k<J. ownership pm ! k ! j * Gamma pm p ! k ! j * (p ! k - costs pm ! k))
          / Lambda pm p ! j
        - aggregate_shares pm p ! j / Lambda pm p ! j)
   \<and> (price_dimensions pm p I J \<and> j < J \<longrightarrow>
      price_step pm p ! j = costs pm ! j + zeta pm p ! j)
   \<and> (price_dimensions pm p I J \<and> j < J \<longrightarrow>
      foc_residual pm p ! j = Lambda pm p ! j * (p ! j - costs pm ! j - zeta pm p ! j))
   \<and> (price_solver nrm tol max_iterations pm p = Inr q \<longleftrightarrow>
        (\<exists>n<max_iterations. q = (price_step pm ^^ Suc n) p \<and> converges_at nrm tol pm p n))
   \<and> (price_solver nrm tol max_iterations pm p = Inl e \<longleftrightarrow>
        e = NonConvergence \<and> (\<forall>n<max_iterations. \<not> residual_norm nrm pm p n < tol))"
proof (intro conjI impI)
  assume "price_dimensions pm p I J \<and> j < J"
  then show "Lambda pm p ! j
      = (\<Sum>i<I. agent_weights pm ! i * choice_probabilities pm p ! i ! j
                  * utility_derivatives pm p ! i ! j)"
    using Lambda_nth [of pm p I J j] by blast
next
  assume "price_dimensions pm p I J \<and> j < J \<and> k < J"
  then show "Gamma pm p ! j ! k
      = (\<Sum>i<I. agent_weights pm ! i * choice_probabilities pm p ! i ! j
                  * choice_probabilities pm p ! i ! k * utility_derivatives pm p ! i ! k)"
    using Gamma_nth [of pm p I J j k] by blast
next
  assume "price_dimensions pm p I J \<and> j < J"
  then show "aggregate_shares pm p ! j
      = (\<Sum>i<I. agent_weights pm ! i * choice_probabilities pm p ! i ! j)"
    using aggregate_shares_nth [of pm p I J j] by blast
next
  assume "price_dimensions pm p I J \<and> j < J"
  then show "zeta pm p ! j
      = (\<Sum>k<J. ownership pm ! k ! j * Gamma pm p ! k ! j * (p ! k - costs pm ! k))
          / Lambda pm p ! j
        - aggregate_shares pm p ! j / Lambda pm p ! j"
    using zeta_nth [of pm p I J j] by blast
next
  assume "price_dimensions pm p I J \<and> j < J"
  then show "price_step pm p ! j = costs pm ! j + zeta pm p ! j"
    using price_step_nth [of pm p I J j] by blast
next
  assume "price_dimensions pm p I J \<and> j < J"
  then show "foc_residual pm p ! j = Lambda pm p ! j * (p ! j - costs pm ! j - zeta pm p ! j)"
    using foc_residual_nth [of pm p I J j] by blast
next
  show "price_solver nrm tol max_iterations pm p = Inr q \<longleftrightarrow>
        (\<exists>n<max_iterations. q = (price_step pm ^^ Suc n) p \<and> converges_at nrm tol pm p n)"
    by (rule price_solver_converged)
next
  show "price_solver nrm tol max_iterations pm p = Inl e \<longleftrightarrow>
        e = NonConvergence \<and> (\<forall>n<max_iterations. \<not> residual_norm nrm pm p n < tol)"
    by (rule price_solver_failed)
qed

text \<open>The firm with two products at the prices \<open>(2, 2)\<close>, and the single-product firm.\<close>

lemma two_product_firm_dimensions: "price_dimensions two_product_firm [x, y] 1 2"
  by (simp add: price_dimensions_def two_product_firm_def is_mat_def)

lemma two_product_firm_values:
  "Lambda two_product_firm p = [- 1/4, - 1]"
  "aggregate_shares two_product_firm p = [1/4, 1/2]"
  "Gamma two_product_firm p = [[- 1/16, - 1/4], [- 1/8, - 1/2]]"
  "Gamma_printed two_product_firm p = [[- 1/16, - 1/8], [- 1/4, - 1/2]]"
  by (simp_all add: Lambda_def aggregate_shares_def Gamma_def Gamma_printed_def agent_terms_def
      two_product_firm_def)

lemmas price_eval = hadamard_def diagonal_solve_def mat_vec_def transpose_m_def ncols_def col_def
  vec_sub_def vec_add_def dot_def

lemma two_product_firm_zeta: "zeta two_product_firm [2, 2] = [7/4, 5/4]"
  unfolding zeta_def two_product_firm_values
  by (simp add: two_product_firm_def price_eval)

lemma two_product_firm_zeta_printed: "zeta_printed two_product_firm [2, 2] = [9/4, 9/8]"
  unfolding zeta_printed_def two_product_firm_values
  by (simp add: two_product_firm_def price_eval)

lemma monopolist_values:
  "Lambda monopolist p = [- 1/2]"
  "aggregate_shares monopolist p = [1/2]"
  "Gamma monopolist p = [[- 1/4]]"
  by (simp_all add: Lambda_def aggregate_shares_def Gamma_def agent_terms_def monopolist_def)

lemma monopolist_zeta: "zeta monopolist [x] = [(x + 1) / 2]"
  unfolding zeta_def monopolist_values
  by (simp add: monopolist_def price_eval field_simps)

lemma monopolist_step: "price_step monopolist [x] = [(x + 3) / 2]"
  unfolding price_step_def monopolist_zeta
  by (simp add: monopolist_def vec_add_def field_simps)

lemma monopolist_residual: "foc_residual monopolist [x] = [(3 - x) / 4]"
  unfolding foc_residual_def monopolist_zeta monopolist_values
  by (simp add: monopolist_def vec_sub_def field_simps)

lemma monopolist_residual_norms:
  "residual_norm norm_inf monopolist [7] 0 = 1"
  "residual_norm norm_inf monopolist [7] (Suc 0) = 1/2"
  "residual_norm norm_inf monopolist [7] (Suc (Suc 0)) = 1/4"
  by (simp_all add: residual_norm_def monopolist_step monopolist_residual norm_inf_def)

theorem zeta_markup_iteration_witness:
  "Lambda two_product_firm [2, 2] ! 1 = - 1
   \<and> Gamma two_product_firm [2, 2] ! 0 ! 1 = - 1/4
   \<and> aggregate_shares two_product_firm [2, 2] ! 0 = 1/4
   \<and> zeta two_product_firm [2, 2] ! 0 = (- 1/16 + - 1/8) / (- 1/4) - (1/4) / (- 1/4)
   \<and> price_step two_product_firm [2, 2] ! 0 = 1 + 7/4
   \<and> foc_residual two_product_firm [2, 2] ! 0 = - 1/4 * (2 - 1 - 7/4)
   \<and> price_solver norm_inf (1/3) 5 monopolist [7] = Inr [7/2]
   \<and> price_solver norm_inf (1/5) 2 monopolist [7] = Inl NonConvergence"
proof -
  note t = zeta_markup_iteration
  let ?F = two_product_firm
  let ?p = "[2, 2 :: real]"
  have d0: "price_dimensions ?F ?p 1 2 \<and> (0 :: nat) < 2" "price_dimensions ?F ?p 1 2 \<and> (1 :: nat) < 2"
    "price_dimensions ?F ?p 1 2 \<and> (0 :: nat) < 2 \<and> (1 :: nat) < 2"
    using two_product_firm_dimensions [of 2 2] by simp_all
  have w: "agent_weights ?F = [1]" "choice_probabilities ?F ?p = [[1/4, 1/2]]"
    "utility_derivatives ?F ?p = [[- 1, - 2]]" "costs ?F = [1, 1]" "ownership ?F = [[1, 1], [1, 1]]"
    by (simp_all add: two_product_firm_def)
  have s2: "(\<Sum>k<2. f k) = f 0 + f (Suc 0)" for f :: "nat \<Rightarrow> real"
    by (simp add: numeral_2_eq_2)
  from t [where pm = ?F and p = ?p and I = 1 and J = 2 and j = 1] d0(2)
  have "Lambda ?F ?p ! 1
      = (\<Sum>i<1. agent_weights ?F ! i * choice_probabilities ?F ?p ! i ! 1
                  * utility_derivatives ?F ?p ! i ! 1)"
    by blast
  then have 1: "Lambda ?F ?p ! 1 = - 1" by (simp add: w)
  from t [where pm = ?F and p = ?p and I = 1 and J = 2 and j = 0 and k = 1] d0(3)
  have "Gamma ?F ?p ! 0 ! 1
      = (\<Sum>i<1. agent_weights ?F ! i * choice_probabilities ?F ?p ! i ! 0
                  * choice_probabilities ?F ?p ! i ! 1 * utility_derivatives ?F ?p ! i ! 1)"
    by blast
  then have 2: "Gamma ?F ?p ! 0 ! 1 = - 1/4" by (simp add: w)
  note t0 = t [where pm = ?F and p = ?p and I = 1 and J = 2 and j = 0]
  from t0 d0(1)
  have "aggregate_shares ?F ?p ! 0
      = (\<Sum>i<1. agent_weights ?F ! i * choice_probabilities ?F ?p ! i ! 0)"
    by blast
  then have 3: "aggregate_shares ?F ?p ! 0 = 1/4" by (simp add: w)
  from t0 d0(1)
  have "zeta ?F ?p ! 0
      = (\<Sum>k<2. ownership ?F ! k ! 0 * Gamma ?F ?p ! k ! 0 * (?p ! k - costs ?F ! k))
          / Lambda ?F ?p ! 0
        - aggregate_shares ?F ?p ! 0 / Lambda ?F ?p ! 0"
    by blast
  then have 4: "zeta ?F ?p ! 0 = (- 1/16 + - 1/8) / (- 1/4) - (1/4) / (- 1/4)"
    unfolding s2 two_product_firm_values by (simp add: w)
  from t0 d0(1) have "price_step ?F ?p ! 0 = costs ?F ! 0 + zeta ?F ?p ! 0" by blast
  then have 5: "price_step ?F ?p ! 0 = 1 + 7/4" by (simp add: w two_product_firm_zeta)
  from t0 d0(1)
  have "foc_residual ?F ?p ! 0 = Lambda ?F ?p ! 0 * (?p ! 0 - costs ?F ! 0 - zeta ?F ?p ! 0)"
    by blast
  then have 6: "foc_residual ?F ?p ! 0 = - 1/4 * (2 - 1 - 7/4)"
    unfolding two_product_firm_values two_product_firm_zeta by (simp add: w)
  have c: "converges_at norm_inf (1/3) monopolist [7] (Suc (Suc 0))"
    unfolding converges_at_def by (simp add: monopolist_residual_norms less_Suc_eq)
  have it: "[7/2] = (price_step monopolist ^^ Suc (Suc (Suc 0))) [7]"
    by (simp add: monopolist_step)
  have "\<exists>n<5. [7/2] = (price_step monopolist ^^ Suc n) [7]
      \<and> converges_at norm_inf (1/3) monopolist [7] n"
    using it c by (intro exI [of _ "Suc (Suc 0)"]) simp
  with t [where pm = monopolist and p = "[7]" and nrm = norm_inf and tol = "1/3"
      and max_iterations = 5 and q = "[7/2]"]
  have 7: "price_solver norm_inf (1/3) 5 monopolist [7] = Inr [7/2]" by blast
  have "\<forall>n<Suc (Suc 0). \<not> residual_norm norm_inf monopolist [7] n < 1/5"
    by (simp add: monopolist_residual_norms less_Suc_eq)
  with t [where pm = monopolist and p = "[7]" and nrm = norm_inf and tol = "1/5"
      and max_iterations = "Suc (Suc 0)" and e = NonConvergence]
  have "price_solver norm_inf (1/5) (Suc (Suc 0)) monopolist [7] = Inl NonConvergence" by blast
  then have 8: "price_solver norm_inf (1/5) 2 monopolist [7] = Inl NonConvergence"
    by (simp add: numeral_2_eq_2)
  show ?thesis using 1 2 3 4 5 6 7 8 by blast
qed

text \<open>
  At the prices \<open>(2, 2)\<close> of the firm with two products, \<open>\<Gamma>\<^sub>1\<^sub>2 = -1/4\<close> carries the derivative
  \<open>-2\<close> of the utility of the second product, where the printed entry carries the
  derivative \<open>-1\<close> of the first product and is \<open>-1/8\<close>; the markup term is \<open>(7/4, 5/4)\<close>,
  with the printed matrix it would be \<open>(9/4, 9/8)\<close>. And the solver also stops when its
  iteration budget is exhausted: with the tolerance \<open>1/10\<close> and one iteration allowed it
  stops at the starting price \<open>7\<close> of the single-product firm although the norm of the
  first order conditions there, \<open>1\<close>, is not below the tolerance (nor is the norm \<open>1/2\<close> at
  the next iterate).
\<close>

theorem price_solver_counterexample:
  "Gamma two_product_firm [2, 2] ! 0 ! 1 = - 1/4
   \<and> Gamma_printed two_product_firm [2, 2] ! 0 ! 1 = - 1/8
   \<and> zeta two_product_firm [2, 2] = [7/4, 5/4]
   \<and> zeta_printed two_product_firm [2, 2] = [9/4, 9/8]
   \<and> price_solver norm_inf (1/10) 1 monopolist [7] = Inl NonConvergence
   \<and> \<not> residual_norm norm_inf monopolist [7] 0 < 1/10
   \<and> \<not> residual_norm norm_inf monopolist [7] (Suc 0) < 1/10"
proof -
  have a: "Gamma two_product_firm [2, 2] ! 0 ! 1 = - 1/4"
    "Gamma_printed two_product_firm [2, 2] ! 0 ! 1 = - 1/8"
    by (simp_all add: two_product_firm_values)
  have b: "\<not> residual_norm norm_inf monopolist [7] 0 < 1/10"
    "\<not> residual_norm norm_inf monopolist [7] (Suc 0) < 1/10"
    by (simp_all add: monopolist_residual_norms)
  have "\<forall>n<Suc 0. \<not> residual_norm norm_inf monopolist [7] n < 1/10"
    using b(1) by simp
  then have "price_solver norm_inf (1/10) (Suc 0) monopolist [7] = Inl NonConvergence"
    using price_solver_failed [of norm_inf "1/10" "Suc 0" monopolist "[7]" NonConvergence] by blast
  then have c: "price_solver norm_inf (1/10) 1 monopolist [7] = Inl NonConvergence" by simp
  show ?thesis using a b c two_product_firm_zeta two_product_firm_zeta_printed by blast
qed

end
